theory Spec2Isabelle
  imports Complex_Main "HOL-Library.Multiset"
begin

section \<open>JSON values and JavaScript objects\<close>

text \<open>
  The server's handlers work on untyped data: \<^verbatim>\<open>req.body\<close> and the elements of the
  parsed data file have type \<^verbatim>\<open>any\<close>. They are modelled as JSON values. An object is
  the list of its own properties in insertion order; a property is set in place when
  its key exists and appended otherwise, as a JavaScript object literal or spread does.
  (JavaScript enumerates keys that look like array indices first; the theorems below read
  objects through \<open>get_prop\<close> only, so they do not depend on that order.)
  A string is a list of characters, one for each code unit of the JavaScript string.
\<close>

datatype json =
    JNull
  | JBool bool
  | JNum real
  | JStr string
  | JArr "json list"
  | JObj "(string \<times> json) list"

type_synonym obj = "(string \<times> json) list"

text \<open>\<^verbatim>\<open>o[k]\<close> for an own property: \<open>None\<close> is \<^verbatim>\<open>undefined\<close>.\<close>

fun get_prop :: "obj \<Rightarrow> string \<Rightarrow> json option" where
  "get_prop [] k = None"
| "get_prop ((k', v) # ps) k = (if k' = k then Some v else get_prop ps k)"

text \<open>\<^verbatim>\<open>o[k] = v\<close> while an object literal is built.\<close>

fun set_prop :: "string \<Rightarrow> json \<Rightarrow> obj \<Rightarrow> obj" where
  "set_prop k v [] = [(k, v)]"
| "set_prop k v ((k', v') # ps) =
     (if k' = k then (k, v) # ps else (k', v') # set_prop k v ps)"

text \<open>A property whose value is \<^verbatim>\<open>undefined\<close> is dropped by \<^verbatim>\<open>JSON.stringify\<close>.\<close>

definition del_prop :: "string \<Rightarrow> obj \<Rightarrow> obj" where
  "del_prop k ps = filter (\<lambda>p. fst p \<noteq> k) ps"

text \<open>Decimal rendering, as \<^verbatim>\<open>Number.prototype.toString\<close> gives it for an integer.\<close>

definition digit :: "nat \<Rightarrow> char" where
  "digit d = ''0123456789'' ! d"

fun digits :: "nat \<Rightarrow> string" where
  "digits n = (if n < 10 then [digit n] else digits (n div 10) @ [digit (n mod 10)])"

declare digits.simps [simp del]

definition toString :: "int \<Rightarrow> string" where
  "toString i = (if i < 0 then CHR ''-'' # digits (nat (- i)) else digits (nat i))"

text \<open>
  The own enumerable properties that a spread \<^verbatim>\<open>...v\<close> copies: those of an object, the
  indexed elements of an array, the indexed characters of a string, and none for a
  number, a boolean or \<^verbatim>\<open>null\<close>.
\<close>

fun own_props :: "json \<Rightarrow> obj" where
  "own_props (JObj ps) = ps"
| "own_props (JArr xs) = zip (map digits [0..<length xs]) xs"
| "own_props (JStr s) = zip (map digits [0..<length s]) (map (\<lambda>c. JStr [c]) s)"
| "own_props _ = []"

text \<open>\<^verbatim>\<open>{...target, ...v}\<close>: the properties of \<open>v\<close> are set on \<open>target\<close> one by one.\<close>

definition spread :: "obj \<Rightarrow> json \<Rightarrow> obj" where
  "spread target v = foldl (\<lambda>acc p. set_prop (fst p) (snd p) acc) target (own_props v)"

text \<open>
  \<^verbatim>\<open>v.k\<close> for a name \<open>k\<close> that no prototype defines (the handlers read \<^verbatim>\<open>notes\<close> and
  \<^verbatim>\<open>id\<close> only): the own property of an object, \<^verbatim>\<open>undefined\<close> on an array, a string, a
  number or a boolean. On \<^verbatim>\<open>null\<close> the access throws; the callers test for it first.
\<close>

fun prop_of :: "json \<Rightarrow> string \<Rightarrow> json option" where
  "prop_of (JObj ps) k = get_prop ps k"
| "prop_of _ k = None"

section \<open>The contact store (server)\<close>

text \<open>
  The data file holds JSON text. \<open>dataFile\<close> is the value \<^verbatim>\<open>JSON.parse\<close> returns for it,
  or \<open>None\<close> when \<^verbatim>\<open>fs.readFileSync\<close> or \<^verbatim>\<open>JSON.parse\<close> throws; \<open>writable\<close> tells
  whether \<^verbatim>\<open>fs.writeFileSync\<close> succeeds. Writing \<^verbatim>\<open>JSON.stringify(contacts)\<close> and parsing
  it again gives the same JSON value.
\<close>

record store =
  dataFile :: "json option"
  writable :: bool

datatype error = ReadError | TypeError | WriteError

text \<open>The callback of \<^verbatim>\<open>.map\<close> in \<^verbatim>\<open>loadContacts\<close>: \<^verbatim>\<open>c.notes\<close> throws on \<^verbatim>\<open>null\<close>.\<close>

definition normalize_contact :: "json \<Rightarrow> error + obj" where
  "normalize_contact c =
     (case c of
        JNull \<Rightarrow> Inl TypeError
      | _ \<Rightarrow> Inr (set_prop ''notes''
                 (case prop_of c ''notes'' of Some (JArr ns) \<Rightarrow> JArr ns | _ \<Rightarrow> JArr [])
                 (spread [] c)))"

fun map_throwing :: "('a \<Rightarrow> error + 'b) \<Rightarrow> 'a list \<Rightarrow> error + 'b list" where
  "map_throwing f [] = Inr []"
| "map_throwing f (x # xs) =
     (case f x of
        Inl e \<Rightarrow> Inl e
      | Inr y \<Rightarrow> (case map_throwing f xs of Inl e \<Rightarrow> Inl e | Inr ys \<Rightarrow> Inr (y # ys)))"

definition loadContacts :: "store \<Rightarrow> error + obj list" where
  "loadContacts st =
     (case dataFile st of
        None \<Rightarrow> Inl ReadError
      | Some (JArr cs) \<Rightarrow> map_throwing normalize_contact cs
      | Some _ \<Rightarrow> Inl TypeError)"

definition saveContacts :: "obj list \<Rightarrow> store \<Rightarrow> error + store" where
  "saveContacts contacts st =
     (if writable st then Inr (st\<lparr>dataFile := Some (JArr (map JObj contacts))\<rparr>)
      else Inl WriteError)"

section \<open>The request handlers (server)\<close>

datatype reply = Reply nat json

definition message :: "string \<Rightarrow> json" where
  "message s = JObj [(''message'', JStr s)]"

definition contact_body :: "obj \<Rightarrow> json" where
  "contact_body c = JObj [(''contact'', JObj c)]"

text \<open>\<^verbatim>\<open>contacts.findIndex(p)\<close>: \<open>None\<close> is \<^verbatim>\<open>-1\<close>.\<close>

fun findIndex :: "('a \<Rightarrow> bool) \<Rightarrow> 'a list \<Rightarrow> nat option" where
  "findIndex p [] = None"
| "findIndex p (x # xs) =
     (if p x then Some 0 else (case findIndex p xs of None \<Rightarrow> None | Some i \<Rightarrow> Some (Suc i)))"

text \<open>\<^verbatim>\<open>c.id === req.params.id\<close>: the route parameter is a string.\<close>

definition has_id :: "string \<Rightarrow> obj \<Rightarrow> bool" where
  "has_id rid c = (get_prop c ''id'' = Some (JStr rid))"

text \<open>\<^verbatim>\<open>router.get("/")\<close>\<close>

definition router_get :: "store \<Rightarrow> reply \<times> store" where
  "router_get st =
     (case loadContacts st of
        Inl e \<Rightarrow> (Reply 500 (message ''Failed to load contacts''), st)
      | Inr contacts \<Rightarrow> (Reply 200 (JArr (map JObj contacts)), st))"

text \<open>
  \<^verbatim>\<open>router.post("/")\<close>; \<open>now\<close> is the value of \<^verbatim>\<open>Date.now()\<close>. The object literal is
  \<^verbatim>\<open>{ id: Date.now().toString(), ...req.body, notes: ... }\<close>; \<^verbatim>\<open>req.body.notes\<close> throws
  when the body is \<^verbatim>\<open>null\<close>.
\<close>

definition newContact :: "int \<Rightarrow> json \<Rightarrow> obj" where
  "newContact now body =
     set_prop ''notes''
       (case prop_of body ''notes'' of Some (JArr ns) \<Rightarrow> JArr ns | _ \<Rightarrow> JArr [])
       (spread [(''id'', JStr (toString now))] body)"

definition router_post :: "int \<Rightarrow> json \<Rightarrow> store \<Rightarrow> reply \<times> store" where
  "router_post now body st =
     (case loadContacts st of
        Inl e \<Rightarrow> (Reply 500 (message ''Failed to save contact''), st)
      | Inr contacts \<Rightarrow>
          (if body = JNull then (Reply 500 (message ''Failed to save contact''), st)
           else
             (case saveContacts (contacts @ [newContact now body]) st of
                Inl e \<Rightarrow> (Reply 500 (message ''Failed to save contact''), st)
              | Inr st' \<Rightarrow> (Reply 201 (contact_body (newContact now body)), st'))))"

text \<open>
  \<^verbatim>\<open>router.put("/:id")\<close>. The object literal is
  \<^verbatim>\<open>{ ...contacts[idx], ...req.body, notes: Array.isArray(req.body.notes) ? req.body.notes : contacts[idx].notes }\<close>.
  Were \<^verbatim>\<open>contacts[idx].notes\<close> undefined, the property would be dropped from what is stored
  and sent; \<open>loadContacts\<close> gives every contact its \<^verbatim>\<open>notes\<close>, so this branch is never taken.
\<close>

definition updated :: "obj \<Rightarrow> json \<Rightarrow> obj" where
  "updated existing body =
     (case prop_of body ''notes'' of
        Some (JArr ns) \<Rightarrow> set_prop ''notes'' (JArr ns) (spread existing body)
      | _ \<Rightarrow>
          (case get_prop existing ''notes'' of
             Some ns \<Rightarrow> set_prop ''notes'' ns (spread existing body)
           | None \<Rightarrow> del_prop ''notes'' (spread existing body)))"

definition router_put :: "string \<Rightarrow> json \<Rightarrow> store \<Rightarrow> reply \<times> store" where
  "router_put rid body st =
     (case loadContacts st of
        Inl e \<Rightarrow> (Reply 500 (message ''Failed to update contact''), st)
      | Inr contacts \<Rightarrow>
          (case findIndex (has_id rid) contacts of
             None \<Rightarrow> (Reply 404 (message ''Contact not found''), st)
           | Some idx \<Rightarrow>
               (if body = JNull then (Reply 500 (message ''Failed to update contact''), st)
                else
                  (case saveContacts (contacts[idx := updated (contacts ! idx) body]) st of
                     Inl e \<Rightarrow> (Reply 500 (message ''Failed to update contact''), st)
                   | Inr st' \<Rightarrow> (Reply 200 (contact_body (updated (contacts ! idx) body)), st')))))"

text \<open>\<^verbatim>\<open>router.delete("/:id")\<close>\<close>

definition router_delete :: "string \<Rightarrow> store \<Rightarrow> reply \<times> store" where
  "router_delete rid st =
     (case loadContacts st of
        Inl e \<Rightarrow> (Reply 500 (message ''Failed to delete contact''), st)
      | Inr contacts \<Rightarrow>
          (case saveContacts (filter (\<lambda>c. \<not> has_id rid c) contacts) st of
             Inl e \<Rightarrow> (Reply 500 (message ''Failed to delete contact''), st)
           | Inr st' \<Rightarrow> (Reply 200 (message ''Deleted''), st')))"

section \<open>The client: contact cache and reminder checker\<close>

text \<open>
  The client's data are typed by the interfaces \<^verbatim>\<open>ContactNote\<close> and \<^verbatim>\<open>ContactData\<close>;
  \<^verbatim>\<open>id?: string\<close> is an optional field, called \<open>id_opt\<close> here (\<open>id\<close> is the identity
  function of HOL).
\<close>

record ContactNote =
  content :: string
  date :: string
  time :: string

record ContactData =
  id_opt :: "string option"
  name :: string
  contactPoint :: string
  contactDetail :: string
  "notes" :: "ContactNote list"
  dateCreated :: string
  remindDate :: string
  remindTime :: string

text \<open>
  \<^verbatim>\<open>new Date(s).getTime()\<close> depends on the host (its time zone and its parser), so it is a
  parameter \<open>parse\<close> of the model: the time value in milliseconds, or \<open>None\<close> for an invalid
  date, whose time value is \<^verbatim>\<open>NaN\<close>. Time values are integers of magnitude at most
  \<^verbatim>\<open>8.64e15\<close>, so the comparisons of their difference with \<^verbatim>\<open>0\<close> and \<^verbatim>\<open>60000\<close> are
  those of the integers; every comparison with \<^verbatim>\<open>NaN\<close> is false.
\<close>

type_synonym date_parser = "string \<Rightarrow> int option"

text \<open>\<^verbatim>\<open>new Date(`${contact.remindDate}T${contact.remindTime}`).getTime()\<close>\<close>

definition remindDateTime :: "date_parser \<Rightarrow> ContactData \<Rightarrow> int option" where
  "remindDateTime parse contact = parse (remindDate contact @ ''T'' @ remindTime contact)"

text \<open>\<^verbatim>\<open>toastr.info(message, title)\<close>\<close>

datatype toast = Info string string

definition reminder :: "ContactData \<Rightarrow> toast" where
  "reminder contact =
     Info (''Reminder: Contact '' @ name contact @ '' via '' @ contactPoint contact @ '' (''
           @ contactDetail contact @ '')'')
          ''Friend Reminder''"

text \<open>
  The body of \<^verbatim>\<open>contacts.forEach\<close> in the reminder checker, for one contact. \<open>shown\<close> is
  the set \<^verbatim>\<open>shownReminders\<close> that the callback captured when the effect ran; the callback
  does not change it. The result is the toast shown, with the id passed to
  \<^verbatim>\<open>setShownReminders\<close>, or \<open>None\<close> when the body does nothing. \<^verbatim>\<open>!contact.id\<close> holds
  for a missing id and for the empty string.
\<close>

definition check_contact ::
    "date_parser \<Rightarrow> int \<Rightarrow> string set \<Rightarrow> ContactData \<Rightarrow> (string \<times> toast) option" where
  "check_contact parse now shown contact =
     (case id_opt contact of
        None \<Rightarrow> None
      | Some i \<Rightarrow>
          if i = [] then None
          else
            (case remindDateTime parse contact of
               None \<Rightarrow> None
             | Some t \<Rightarrow>
                 (let diff = t - now in
                  if diff \<ge> 0 \<and> diff < 60000 \<and> i \<notin> shown then Some (i, reminder contact)
                  else None)))"

fun forEach_contact ::
    "date_parser \<Rightarrow> int \<Rightarrow> string set \<Rightarrow> ContactData list \<Rightarrow> (string \<times> toast) list" where
  "forEach_contact parse now shown [] = []"
| "forEach_contact parse now shown (contact # rest) =
     (case check_contact parse now shown contact of
        None \<Rightarrow> forEach_contact parse now shown rest
      | Some e \<Rightarrow> e # forEach_contact parse now shown rest)"

text \<open>
  The state of \<^verbatim>\<open>App\<close> that the checker reads. One run of the interval callback at the
  time \<open>now\<close> shows the toasts and queues one update \<^verbatim>\<open>prev => new Set(prev).add(id)\<close> for
  each; React applies the queued updates in order and renders again before the next run,
  which then reads the new set.
\<close>

record app =
  contacts :: "ContactData list"
  shownReminders :: "string set"

definition tick :: "date_parser \<Rightarrow> int \<Rightarrow> app \<Rightarrow> (string \<times> toast) list \<times> app" where
  "tick parse now st =
     (let fired = forEach_contact parse now (shownReminders st) (contacts st)
      in (fired,
          st\<lparr>shownReminders := foldl (\<lambda>prev i. insert i prev) (shownReminders st) (map fst fired)\<rparr>))"

text \<open>
  What happens during a session: a run of the checker at some time, and the four ways in
  which the cache changes (\<^verbatim>\<open>fetchContacts\<close>, \<^verbatim>\<open>handleAddContact\<close>,
  \<^verbatim>\<open>handleUpdateContact\<close>, and the local part of \<^verbatim>\<open>handleDeleteContact\<close> after the server
  has answered).
\<close>

datatype event =
    Tick int
  | Fetched "ContactData list"
  | AddContact ContactData
  | UpdateContact ContactData
  | DeleteContact string

definition handleAddContact :: "ContactData \<Rightarrow> ContactData list \<Rightarrow> ContactData list" where
  "handleAddContact contact prev = prev @ [contact]"

definition handleUpdateContact :: "ContactData \<Rightarrow> ContactData list \<Rightarrow> ContactData list" where
  "handleUpdateContact contact prev = map (\<lambda>c. if id_opt c = id_opt contact then contact else c) prev"

definition handleDeleteContact :: "string \<Rightarrow> ContactData list \<Rightarrow> ContactData list" where
  "handleDeleteContact i prev = filter (\<lambda>c. id_opt c \<noteq> Some i) prev"

fun step :: "date_parser \<Rightarrow> event \<Rightarrow> app \<Rightarrow> (string \<times> toast) list \<times> app" where
  "step parse (Tick now) st = tick parse now st"
| "step parse (Fetched cs) st = ([], st\<lparr>contacts := cs\<rparr>)"
| "step parse (AddContact c) st = ([], st\<lparr>contacts := handleAddContact c (contacts st)\<rparr>)"
| "step parse (UpdateContact c) st = ([], st\<lparr>contacts := handleUpdateContact c (contacts st)\<rparr>)"
| "step parse (DeleteContact i) st = ([], st\<lparr>contacts := handleDeleteContact i (contacts st)\<rparr>)"

text \<open>
  The notifications of a session: for each event in turn, the notifications it shows, each
  with the id it was registered under.
\<close>

fun session_log :: "date_parser \<Rightarrow> event list \<Rightarrow> app \<Rightarrow> (string \<times> toast) list list" where
  "session_log parse [] st = []"
| "session_log parse (e # es) st =
     fst (step parse e st) # session_log parse es (snd (step parse e st))"

section \<open>The client: display order\<close>

text \<open>
  The comparator of the display sort,
  \<^verbatim>\<open>new Date(...a...).getTime() - new Date(...b...).getTime()\<close>: \<open>None\<close> is \<^verbatim>\<open>NaN\<close>, the
  result when either date is invalid.
\<close>

definition compare_remind :: "date_parser \<Rightarrow> ContactData \<Rightarrow> ContactData \<Rightarrow> int option" where
  "compare_remind parse a b =
     (case remindDateTime parse a of
        None \<Rightarrow> None
      | Some x \<Rightarrow> (case remindDateTime parse b of None \<Rightarrow> None | Some y \<Rightarrow> Some (x - y)))"

text \<open>
  \<^verbatim>\<open>Array.prototype.sort(comparefn)\<close>. The language standard reads a \<^verbatim>\<open>NaN\<close> result of the
  comparator as \<^verbatim>\<open>+0\<close> and requires the sort to be stable. For a consistent comparator
  that fixes the result, which insertion sort computes. When the comparator is not
  consistent the standard leaves the order to the engine; insertion sort is then one
  permitted behaviour.
\<close>

definition sortCompare :: "('a \<Rightarrow> 'a \<Rightarrow> int option) \<Rightarrow> 'a \<Rightarrow> 'a \<Rightarrow> int" where
  "sortCompare comparefn x y = (case comparefn x y of None \<Rightarrow> 0 | Some v \<Rightarrow> v)"

fun insert_stable :: "('a \<Rightarrow> 'a \<Rightarrow> int option) \<Rightarrow> 'a \<Rightarrow> 'a list \<Rightarrow> 'a list" where
  "insert_stable comparefn x [] = [x]"
| "insert_stable comparefn x (y # ys) =
     (if sortCompare comparefn x y \<le> 0 then x # y # ys
      else y # insert_stable comparefn x ys)"

fun array_sort :: "('a \<Rightarrow> 'a \<Rightarrow> int option) \<Rightarrow> 'a list \<Rightarrow> 'a list" where
  "array_sort comparefn [] = []"
| "array_sort comparefn (x # xs) = insert_stable comparefn x (array_sort comparefn xs)"

text \<open>\<^verbatim>\<open>[...contacts].sort(...)\<close>, the order in which the contacts are rendered.\<close>

definition display_order :: "date_parser \<Rightarrow> ContactData list \<Rightarrow> ContactData list" where
  "display_order parse cs = array_sort (compare_remind parse) cs"

section \<open>Predicates used in the statements\<close>

text \<open>The \<^verbatim>\<open>notes\<close> property of a contact is present and is an array.\<close>

definition notes_is_sequence :: "obj \<Rightarrow> bool" where
  "notes_is_sequence c = (case get_prop c ''notes'' of Some (JArr ns) \<Rightarrow> True | _ \<Rightarrow> False)"

text \<open>
  The shape of every contact that \<open>loadContacts\<close> returns: no key twice, and \<^verbatim>\<open>notes\<close> an
  array.
\<close>

definition normal :: "obj \<Rightarrow> bool" where
  "normal c = (distinct (map fst c) \<and> notes_is_sequence c)"

text \<open>\<^verbatim>\<open>Array.isArray(v)\<close> on a value that is present.\<close>

definition is_sequence :: "json \<Rightarrow> bool" where
  "is_sequence v = (case v of JArr ns \<Rightarrow> True | _ \<Rightarrow> False)"

text \<open>The data file holds an array of objects, each with an array as its \<^verbatim>\<open>notes\<close>.\<close>

definition stored_notes_ok :: "store \<Rightarrow> bool" where
  "stored_notes_ok st =
     (case dataFile st of
        Some (JArr cs) \<Rightarrow> list_all (\<lambda>c. case c of JObj ps \<Rightarrow> notes_is_sequence ps | _ \<Rightarrow> False) cs
      | _ \<Rightarrow> False)"

text \<open>
  An element of the data file that \<open>loadContacts\<close> returns as it is: an object with no key
  twice (as \<^verbatim>\<open>JSON.parse\<close> gives it) whose \<^verbatim>\<open>notes\<close> is an array.
\<close>

definition stored_normal :: "json \<Rightarrow> bool" where
  "stored_normal r = (case r of JObj c \<Rightarrow> normal c | _ \<Rightarrow> False)"

text \<open>
  The conditions of the reminder checker in the words of the specification: the contact
  has a resolvable id, it has not fired yet, and \<open>0 \<le> delta < 60000\<close> where \<open>delta\<close> is the
  reminder instant minus the current time.
\<close>

definition resolvable_id :: "ContactData \<Rightarrow> bool" where
  "resolvable_id c = (case id_opt c of None \<Rightarrow> False | Some i \<Rightarrow> i \<noteq> [])"

definition already_fired :: "string set \<Rightarrow> ContactData \<Rightarrow> bool" where
  "already_fired shown c = (case id_opt c of None \<Rightarrow> False | Some i \<Rightarrow> i \<in> shown)"

definition due_spec :: "date_parser \<Rightarrow> int \<Rightarrow> ContactData \<Rightarrow> bool" where
  "due_spec parse now c =
     (case remindDateTime parse c of
        None \<Rightarrow> False
      | Some remind \<Rightarrow> 0 \<le> remind - now \<and> remind - now < 60000)"

text \<open>
  Every run of the checker in the session reads a cache in which no id occurs twice.
\<close>

fun ticks_see_distinct_ids :: "date_parser \<Rightarrow> event list \<Rightarrow> app \<Rightarrow> bool" where
  "ticks_see_distinct_ids parse [] st = True"
| "ticks_see_distinct_ids parse (e # es) st =
     ((case e of Tick now \<Rightarrow> distinct (List.map_filter id_opt (contacts st)) | _ \<Rightarrow> True) \<and>
      ticks_see_distinct_ids parse es (snd (step parse e st)))"

section \<open>Sample data\<close>

text \<open>
  The store after \<^verbatim>\<open>resetTestData\<close> of the API tests, and a store holding the two contacts
  of the test \<^verbatim>\<open>Handles multiple contacts correctly\<close>, with the ids \<^verbatim>\<open>1\<close> and \<^verbatim>\<open>2\<close>.
\<close>

definition empty_store :: store where
  "empty_store = \<lparr>dataFile = Some (JArr []), writable = True\<rparr>"

definition contact_A :: obj where
  "contact_A =
     [(''id'', JStr ''1''), (''name'', JStr ''A''), (''contactPoint'', JStr ''Email''),
      (''contactDetail'', JStr ''a@example.com''), (''notes'', JArr []),
      (''dateCreated'', JStr ''2025-01-01''), (''remindDate'', JStr ''2025-09-01''),
      (''remindTime'', JStr ''10:00'')]"

definition contact_B :: obj where
  "contact_B =
     [(''id'', JStr ''2''), (''name'', JStr ''B''), (''contactPoint'', JStr ''Phone''),
      (''contactDetail'', JStr ''b@example.com''), (''notes'', JArr []),
      (''dateCreated'', JStr ''2025-01-02''), (''remindDate'', JStr ''2025-09-02''),
      (''remindTime'', JStr ''11:00'')]"

definition store_AB :: store where
  "store_AB = \<lparr>dataFile = Some (JArr [JObj contact_A, JObj contact_B]), writable = True\<rparr>"

text \<open>
  A data file written by hand: its first contact has no \<^verbatim>\<open>notes\<close>, its second has
  \<^verbatim>\<open>notes: null\<close>.
\<close>

definition store_legacy :: store where
  "store_legacy =
     \<lparr>dataFile = Some (JArr [JObj [(''id'', JStr ''1''), (''name'', JStr ''Eve'')],
                             JObj [(''id'', JStr ''2''), (''name'', JStr ''Frank''), (''notes'', JNull)]]),
      writable = True\<rparr>"

text \<open>
  A store in which one id is a clock reading and the other was supplied by a request body.
\<close>

definition contact_custom :: obj where
  "contact_custom = [(''id'', JStr ''custom''), (''name'', JStr ''Mallory''), (''notes'', JArr [])]"

definition store_mixed :: store where
  "store_mixed = \<lparr>dataFile = Some (JArr [JObj contact_A, JObj contact_custom]), writable = True\<rparr>"

text \<open>
  Contacts of the client: Alice and Bob of the API tests, and a contact whose reminder date
  and time are empty, so that the string parsed is \<^verbatim>\<open>T\<close>, an invalid date. \<open>utc_parse\<close>
  gives the time values of the two date strings used, on a host whose time zone is UTC; it
  is consulted at these strings and at invalid ones only.
\<close>

definition contact_alice :: ContactData where
  "contact_alice =
     \<lparr>id_opt = Some ''1'', name = ''Alice'', contactPoint = ''Email'',
      contactDetail = ''alice@example.com'', notes = [], dateCreated = ''2025-01-01'',
      remindDate = ''2025-09-30'', remindTime = ''12:00''\<rparr>"

definition contact_bob :: ContactData where
  "contact_bob =
     \<lparr>id_opt = Some ''2'', name = ''Bob'', contactPoint = ''Phone'',
      contactDetail = ''123'', notes = [], dateCreated = ''2025-01-01'',
      remindDate = ''2025-10-01'', remindTime = ''10:00''\<rparr>"

definition contact_undated :: ContactData where
  "contact_undated =
     \<lparr>id_opt = Some ''3'', name = ''Carol'', contactPoint = ''Text'',
      contactDetail = ''555'', notes = [], dateCreated = ''2025-01-01'',
      remindDate = '''', remindTime = ''''\<rparr>"

definition utc_parse :: date_parser where
  "utc_parse s =
     (if s = ''2025-09-30T12:00'' then Some 1759233600000
      else if s = ''2025-10-01T10:00'' then Some 1759312800000
      else None)"

section \<open>Properties of objects\<close>

lemma get_prop_set_prop: "get_prop (set_prop k v ps) k' = (if k' = k then Some v else get_prop ps k')"
  by (induction ps) auto

lemma get_prop_None_iff: "get_prop ps k = None \<longleftrightarrow> k \<notin> fst ` set ps"
  by (induction ps) force+

lemma set_prop_same: "get_prop ps k = Some v \<Longrightarrow> set_prop k v ps = ps"
  by (induction ps) (auto split: if_splits)

lemma keys_set_prop: "fst ` set (set_prop k v ps) = insert k (fst ` set ps)"
proof (induction ps)
  case Nil
  show ?case by simp
next
  case (Cons p ps)
  obtain k' v' where p: "p = (k', v')" by (cases p)
  show ?case using Cons.IH by (cases "k' = k") (auto simp: p)
qed

lemma distinct_set_prop: "distinct (map fst ps) \<Longrightarrow> distinct (map fst (set_prop k v ps))"
  by (induction ps) (auto simp: keys_set_prop)

lemma set_prop_fresh: "k \<notin> fst ` set ps \<Longrightarrow> set_prop k v ps = ps @ [(k, v)]"
  by (induction ps) auto

lemma foldl_set_prop_fresh:
  "distinct (map fst (t @ ps)) \<Longrightarrow> foldl (\<lambda>acc p. set_prop (fst p) (snd p) acc) t ps = t @ ps"
proof (induction ps arbitrary: t)
  case Nil
  then show ?case by simp
next
  case (Cons p ps)
  have fresh: "fst p \<notin> fst ` set t" using Cons.prems by auto
  have "distinct (map fst ((t @ [p]) @ ps))" using Cons.prems by auto
  from Cons.IH [OF this] show ?case
    using fresh by (simp add: set_prop_fresh [OF fresh])
qed

lemma get_prop_foldl_other:
  "k \<notin> fst ` set ps \<Longrightarrow> get_prop (foldl (\<lambda>acc p. set_prop (fst p) (snd p) acc) t ps) k = get_prop t k"
  by (induction ps arbitrary: t) (auto simp: get_prop_set_prop)

lemma distinct_foldl_set_prop:
  "distinct (map fst t) \<Longrightarrow> distinct (map fst (foldl (\<lambda>acc p. set_prop (fst p) (snd p) acc) t ps))"
  by (induction ps arbitrary: t) (auto simp: distinct_set_prop)

lemma get_prop_foldl_distinct:
  "distinct (map fst ps) \<Longrightarrow> get_prop ps k = Some v \<Longrightarrow>
   get_prop (foldl (\<lambda>acc p. set_prop (fst p) (snd p) acc) t ps) k = Some v"
  by (induction ps arbitrary: t) (auto simp: get_prop_set_prop get_prop_foldl_other split: if_splits)

lemma notes_is_sequence_set_prop:
  "notes_is_sequence (set_prop ''notes'' (JArr ns) c)"
  by (simp add: notes_is_sequence_def get_prop_set_prop)

lemma distinct_spread: "distinct (map fst t) \<Longrightarrow> distinct (map fst (spread t v))"
  by (simp add: spread_def distinct_foldl_set_prop)

lemma normalize_normal: "normalize_contact c = Inr c' \<Longrightarrow> normal c'"
  by (cases c)
     (auto simp: normalize_contact_def normal_def distinct_set_prop distinct_spread
        notes_is_sequence_def get_prop_set_prop split: option.splits json.splits)

lemma spread_empty_JObj: "distinct (map fst ps) \<Longrightarrow> spread [] (JObj ps) = ps"
  using foldl_set_prop_fresh [of "[]" ps] by (simp add: spread_def)

lemma normalize_fixes_normal: "normal c \<Longrightarrow> normalize_contact (JObj c) = Inr c"
  by (auto simp: normalize_contact_def normal_def notes_is_sequence_def spread_empty_JObj set_prop_same
      split: option.splits json.splits)

lemma map_throwing_Inr:
  "map_throwing f xs = Inr ys \<Longrightarrow> \<forall>y\<in>set ys. \<exists>x\<in>set xs. f x = Inr y"
  by (induction xs arbitrary: ys) (auto split: sum.splits)

lemma map_throwing_fix:
  "\<forall>c\<in>set cs. f (g c) = Inr c \<Longrightarrow> map_throwing f (map g cs) = Inr cs"
  by (induction cs) auto

lemma loadContacts_normal: "loadContacts st = Inr cs \<Longrightarrow> \<forall>c\<in>set cs. normal c"
  by (auto simp: loadContacts_def split: option.splits json.splits
      dest!: map_throwing_Inr dest: normalize_normal)

lemma load_after_save:
  "\<forall>c\<in>set cs. normal c \<Longrightarrow> saveContacts cs st = Inr st' \<Longrightarrow> loadContacts st' = Inr cs"
  by (auto simp: saveContacts_def loadContacts_def normalize_fixes_normal map_throwing_fix
      split: if_splits)

lemma normal_newContact: "normal (newContact now body)"
  by (auto simp: newContact_def normal_def distinct_set_prop distinct_spread
      notes_is_sequence_def get_prop_set_prop split: option.splits json.splits)

lemma normal_updated: "normal c \<Longrightarrow> normal (updated c body)"
  by (auto simp: updated_def normal_def distinct_set_prop distinct_spread
      notes_is_sequence_def get_prop_set_prop split: option.splits json.splits)

lemma findIndex_None: "findIndex p xs = None \<longleftrightarrow> (\<forall>x\<in>set xs. \<not> p x)"
  by (induction xs) (auto split: option.splits)

lemma findIndex_Some:
  "findIndex p xs = Some i \<Longrightarrow> i < length xs \<and> p (xs ! i) \<and> (\<forall>j<i. \<not> p (xs ! j))"
proof (induction xs arbitrary: i)
  case Nil
  then show ?case by simp
next
  case (Cons x xs)
  show ?case
  proof (cases "p x")
    case True
    with Cons.prems show ?thesis by simp
  next
    case False
    with Cons.prems obtain i' where i': "findIndex p xs = Some i'" "i = Suc i'"
      by (auto split: option.splits)
    from Cons.IH [OF i'(1)] False show ?thesis
      by (auto simp: i'(2) less_Suc_eq_0_disj)
  qed
qed

lemma router_delete_ok:
  assumes "loadContacts st = Inr cs" and "writable st"
  shows "router_delete rid st =
    (Reply 200 (message ''Deleted''),
     st\<lparr>dataFile := Some (JArr (map JObj (filter (\<lambda>c. \<not> has_id rid c) cs)))\<rparr>)"
  by (simp add: router_delete_def assms saveContacts_def)

lemma load_saved:
  "\<forall>c\<in>set cs. normal c \<Longrightarrow> loadContacts (st\<lparr>dataFile := Some (JArr (map JObj cs))\<rparr>) = Inr cs"
  by (simp add: loadContacts_def normalize_fixes_normal map_throwing_fix)


lemma load_store_AB: "loadContacts store_AB = Inr [contact_A, contact_B]"
  by (simp add: store_AB_def contact_A_def contact_B_def loadContacts_def normalize_contact_def spread_def)

section \<open>Properties of the handlers\<close>

lemma router_post_ok:
  assumes "loadContacts st = Inr cs" and "writable st" and "body \<noteq> JNull"
  shows "router_post now body st =
    (Reply 201 (contact_body (newContact now body)),
     st\<lparr>dataFile := Some (JArr (map JObj (cs @ [newContact now body])))\<rparr>)"
  using assms by (simp add: router_post_def saveContacts_def)

lemma router_put_ok:
  assumes "loadContacts st = Inr cs" and "findIndex (has_id rid) cs = Some i"
    and "writable st" and "body \<noteq> JNull"
  shows "router_put rid body st =
    (Reply 200 (contact_body (updated (cs ! i) body)),
     st\<lparr>dataFile := Some (JArr (map JObj (cs[i := updated (cs ! i) body])))\<rparr>)"
  using assms by (simp add: router_put_def saveContacts_def)

lemma router_post_201:
  assumes "router_post now body st = (Reply 201 p, st')"
  obtains cs where "loadContacts st = Inr cs" and "p = contact_body (newContact now body)"
    and "st' = st\<lparr>dataFile := Some (JArr (map JObj (cs @ [newContact now body])))\<rparr>"
  using assms
  by (auto simp: router_post_def saveContacts_def split: sum.splits if_splits)

lemma router_put_200:
  assumes "router_put rid body st = (Reply 200 p, st')"
  obtains cs i where "loadContacts st = Inr cs" and "findIndex (has_id rid) cs = Some i"
    and "p = contact_body (updated (cs ! i) body)"
    and "st' = st\<lparr>dataFile := Some (JArr (map JObj (cs[i := updated (cs ! i) body])))\<rparr>"
  using assms
  by (auto simp: router_put_def saveContacts_def split: sum.splits if_splits option.splits)

lemma router_delete_200:
  assumes "router_delete rid st = (Reply 200 p, st')"
  obtains cs where "loadContacts st = Inr cs"
    and "st' = st\<lparr>dataFile := Some (JArr (map JObj (filter (\<lambda>c. \<not> has_id rid c) cs)))\<rparr>"
  using assms
  by (auto simp: router_delete_def saveContacts_def split: sum.splits if_splits)

lemma stored_notes_ok_saved:
  "\<forall>c\<in>set cs. normal c \<Longrightarrow> stored_notes_ok (st\<lparr>dataFile := Some (JArr (map JObj cs))\<rparr>)"
  by (simp add: stored_notes_ok_def list_all_iff normal_def)

lemma normal_list_update:
  "\<forall>c\<in>set cs. normal c \<Longrightarrow> normal u \<Longrightarrow> \<forall>c\<in>set (cs[i := u]). normal c"
  using set_update_subset_insert [of cs i u] by auto

lemma map_throwing_nth:
  "map_throwing f xs = Inr ys \<Longrightarrow>
   length ys = length xs \<and> (\<forall>i<length xs. f (xs ! i) = Inr (ys ! i))"
proof (induction xs arbitrary: ys)
  case Nil
  then show ?case by simp
next
  case (Cons x xs)
  from Cons.prems obtain y ys' where y: "f x = Inr y" and ys': "map_throwing f xs = Inr ys'"
    and ys: "ys = y # ys'"
    by (auto split: sum.splits)
  from Cons.IH [OF ys'] y show ?case
    by (auto simp: ys nth_Cons split: nat.splits)
qed

lemma normalize_notes_default:
  assumes "normalize_contact c = Inr c'" and "\<not> (\<exists>ns. prop_of c ''notes'' = Some (JArr ns))"
  shows "get_prop c' ''notes'' = Some (JArr [])"
  using assms
  by (cases c) (auto simp: normalize_contact_def get_prop_set_prop split: option.splits json.splits)

lemma spread_single: "spread c (JObj [(f, v)]) = set_prop f v c"
  by (simp add: spread_def)

lemma normal_notes: "normal c \<Longrightarrow> \<exists>ns. get_prop c ''notes'' = Some (JArr ns)"
  by (auto simp: normal_def notes_is_sequence_def split: option.splits json.splits)

lemma updated_single_other:
  assumes "normal c" and "g \<noteq> f"
  shows "get_prop (updated c (JObj [(f, v)])) g = get_prop c g"
proof -
  obtain ns where ns: "get_prop c ''notes'' = Some (JArr ns)"
    using normal_notes [OF assms(1)] by blast
  show ?thesis
    using assms(2) ns
    by (cases "f = ''notes''")
       (auto simp: updated_def spread_single get_prop_set_prop split: option.splits json.splits)
qed

lemma updated_single_field:
  assumes "normal c"
  shows "get_prop (updated c (JObj [(f, v)])) f =
    (if f = ''notes'' \<and> \<not> is_sequence v then get_prop c ''notes'' else Some v)"
proof -
  obtain ns where ns: "get_prop c ''notes'' = Some (JArr ns)"
    using normal_notes [OF assms(1)] by blast
  show ?thesis
    using ns
    by (cases "f = ''notes''")
       (auto simp: updated_def spread_single get_prop_set_prop is_sequence_def
          split: option.splits json.splits)
qed

lemma put_result:
  assumes "loadContacts st = Inr cs" and "findIndex (has_id rid) cs = Some i"
    and "writable st" and "body \<noteq> JNull"
  shows "fst (router_put rid body st) = Reply 200 (contact_body (updated (cs ! i) body))"
    and "loadContacts (snd (router_put rid body st)) = Inr (cs[i := updated (cs ! i) body])"
proof -
  note r = router_put_ok [OF assms]
  show "fst (router_put rid body st) = Reply 200 (contact_body (updated (cs ! i) body))"
    by (simp add: r)
  have "i < length cs" using findIndex_Some [OF assms(2)] by simp
  then have "normal (cs ! i)" using loadContacts_normal [OF assms(1)] by simp
  then have "normal (updated (cs ! i) body)" by (rule normal_updated)
  with loadContacts_normal [OF assms(1)]
  have "\<forall>c\<in>set (cs[i := updated (cs ! i) body]). normal c"
    by (rule normal_list_update)
  then show "loadContacts (snd (router_put rid body st)) = Inr (cs[i := updated (cs ! i) body])"
    by (simp add: r load_saved)
qed

lemma get_prop_foldl_same:
  "get_prop t k = Some x \<Longrightarrow> \<forall>v. (k, v) \<in> set ps \<longrightarrow> v = x \<Longrightarrow>
   get_prop (foldl (\<lambda>acc p. set_prop (fst p) (snd p) acc) t ps) k = Some x"
proof (induction ps arbitrary: t)
  case Nil
  then show ?case by simp
next
  case (Cons p ps)
  obtain k' v' where p: "p = (k', v')" by (cases p)
  have "get_prop (set_prop k' v' t) k = Some x"
    using Cons.prems by (auto simp: get_prop_set_prop p)
  moreover have "\<forall>v. (k, v) \<in> set ps \<longrightarrow> v = x" using Cons.prems(2) by simp
  ultimately show ?case using Cons.IH by (simp add: p)
qed

lemma updated_id:
  assumes "normal c" and "get_prop c ''id'' = Some x"
    and "\<forall>v. (''id'', v) \<in> set (own_props body) \<longrightarrow> v = x"
  shows "get_prop (updated c body) ''id'' = Some x"
proof -
  obtain ns where ns: "get_prop c ''notes'' = Some (JArr ns)"
    using normal_notes [OF assms(1)] by blast
  have "get_prop (spread c body) ''id'' = Some x"
    unfolding spread_def using assms(2,3) by (rule get_prop_foldl_same)
  then show ?thesis
    using ns by (auto simp: updated_def get_prop_set_prop split: option.splits json.splits)
qed

lemma post_result:
  assumes "loadContacts st = Inr cs" and "writable st" and "body \<noteq> JNull"
  shows "fst (router_post now body st) = Reply 201 (contact_body (newContact now body))"
    and "loadContacts (snd (router_post now body st)) = Inr (cs @ [newContact now body])"
proof -
  note r = router_post_ok [OF assms]
  show "fst (router_post now body st) = Reply 201 (contact_body (newContact now body))"
    by (simp add: r)
  have "\<forall>c\<in>set (cs @ [newContact now body]). normal c"
    using loadContacts_normal [OF assms(1)] normal_newContact by auto
  then have "loadContacts (st\<lparr>dataFile := Some (JArr (map JObj (cs @ [newContact now body])))\<rparr>)
      = Inr (cs @ [newContact now body])"
    by (rule load_saved)
  then show "loadContacts (snd (router_post now body st)) = Inr (cs @ [newContact now body])"
    by (simp only: r snd_conv)
qed

lemma stored_normal_load:
  assumes "dataFile st = Some (JArr raw)" and "\<forall>r\<in>set raw. stored_normal r"
    and "loadContacts st = Inr cs"
  shows "raw = map JObj cs"
proof -
  have m: "map_throwing normalize_contact raw = Inr cs"
    using assms(1,3) by (simp add: loadContacts_def)
  from map_throwing_nth [OF m]
  have len: "length cs = length raw"
    and nth: "\<forall>k<length raw. normalize_contact (raw ! k) = Inr (cs ! k)"
    by simp_all
  have "raw ! k = JObj (cs ! k)" if k: "k < length raw" for k
  proof -
    from k assms(2) have "stored_normal (raw ! k)" by simp
    then obtain c where c: "raw ! k = JObj c" and n: "normal c"
      by (auto simp: stored_normal_def split: json.splits)
    from nth k have "normalize_contact (raw ! k) = Inr (cs ! k)" by blast
    then have "normalize_contact (JObj c) = Inr (cs ! k)" by (simp only: c)
    then have "cs ! k = c" using normalize_fixes_normal [OF n] by simp
    then show ?thesis by (simp add: c)
  qed
  then show ?thesis using len by (intro nth_equalityI) simp_all
qed

section \<open>Decimal rendering is injective\<close>

lemma digit_cases:
  assumes "d < 10"
  obtains "d = 0" | "d = 1" | "d = 2" | "d = 3" | "d = 4" | "d = 5" | "d = 6" | "d = 7"
    | "d = 8" | "d = (9::nat)"
  using assms by (auto simp: less_Suc_eq numeral_eq_Suc)

lemma digit_inj: "a < 10 \<Longrightarrow> b < 10 \<Longrightarrow> digit a = digit b \<Longrightarrow> a = b"
  by (erule digit_cases [of a]; erule digit_cases [of b]) (simp_all add: digit_def)

lemma digit_not_minus: "d < 10 \<Longrightarrow> digit d \<noteq> CHR ''-''"
  by (erule digit_cases) (simp_all add: digit_def)

lemma digits_nonempty: "digits n \<noteq> []"
  by (subst digits.simps) simp

lemma minus_notin_digits: "CHR ''-'' \<notin> set (digits n)"
proof (induction n rule: digits.induct)
  case (1 n)
  show ?case
  proof (cases "n < 10")
    case True
    then show ?thesis using digit_not_minus [of n] by (subst digits.simps) auto
  next
    case False
    have "n mod 10 < 10" by simp
    then have "digit (n mod 10) \<noteq> CHR ''-''" by (rule digit_not_minus)
    then show ?thesis using False 1 by (subst digits.simps) auto
  qed
qed

lemma digits_inj: "digits m = digits n \<Longrightarrow> m = n"
proof (induction m arbitrary: n rule: digits.induct)
  case (1 m)
  note eq = \<open>digits m = digits n\<close>
  show ?case
  proof (cases "m < 10")
    case m: True
    show ?thesis
    proof (cases "n < 10")
      case True
      have "[digit m] = [digit n]" using eq m True by (simp add: digits.simps [of m] digits.simps [of n])
      then show ?thesis using digit_inj m True by simp
    next
      case False
      have "[digit m] = digits (n div 10) @ [digit (n mod 10)]"
        using eq m False by (simp add: digits.simps [of m] digits.simps [of n])
      then have "digits (n div 10) = []" by simp
      then show ?thesis using digits_nonempty by blast
    qed
  next
    case m: False
    show ?thesis
    proof (cases "n < 10")
      case True
      have "digits (m div 10) @ [digit (m mod 10)] = [digit n]"
        using eq m True by (simp add: digits.simps [of m] digits.simps [of n])
      then have "digits (m div 10) = []" by simp
      then show ?thesis using digits_nonempty by blast
    next
      case False
      have "digits (m div 10) @ [digit (m mod 10)] = digits (n div 10) @ [digit (n mod 10)]"
        using eq m False by (simp add: digits.simps [of m] digits.simps [of n])
      then have a: "digits (m div 10) = digits (n div 10)"
        and b: "digit (m mod 10) = digit (n mod 10)" by simp_all
      have "m div 10 = n div 10" using 1 m a by blast
      moreover have "m mod 10 = n mod 10" using b by (intro digit_inj) simp_all
      ultimately show ?thesis by (metis div_mult_mod_eq)
    qed
  qed
qed

lemma toString_nonempty: "toString i \<noteq> []"
  by (simp add: toString_def digits_nonempty)

lemma toString_inj: "toString i = toString j \<Longrightarrow> i = j"
proof -
  assume eq: "toString i = toString j"
  have hd_neg: "\<And>k. k < 0 \<Longrightarrow> CHR ''-'' \<in> set (toString k)" by (simp add: toString_def)
  have hd_pos: "\<And>k. \<not> k < 0 \<Longrightarrow> CHR ''-'' \<notin> set (toString k)"
    by (simp add: toString_def minus_notin_digits)
  show "i = j"
  proof (cases "i < 0")
    case True
    then have "j < 0" using eq hd_neg [of i] hd_pos [of j] by auto
    then have "digits (nat (- i)) = digits (nat (- j))" using eq True by (simp add: toString_def)
    then have "nat (- i) = nat (- j)" by (rule digits_inj)
    then show ?thesis using True \<open>j < 0\<close> by simp
  next
    case False
    then have "\<not> j < 0" using eq hd_neg [of j] hd_pos [of i] by auto
    then have "digits (nat i) = digits (nat j)" using eq False by (simp add: toString_def)
    then have "nat i = nat j" by (rule digits_inj)
    then show ?thesis using False \<open>\<not> j < 0\<close> by simp
  qed
qed

lemma newContact_id_minted:
  assumes "''id'' \<notin> fst ` set (own_props body)"
  shows "get_prop (newContact now body) ''id'' = Some (JStr (toString now))"
  using assms by (simp add: newContact_def get_prop_set_prop spread_def get_prop_foldl_other)

lemma toString_sample: "toString 1700000000000 = ''1700000000000''"
  by (simp add: toString_def digits.simps digit_def)

lemma toString_small: "toString 1 = ''1''" "toString 2 = ''2''"
  by (simp_all add: toString_def digits.simps digit_def)

section \<open>The sample data, evaluated\<close>

lemma findIndex_store_AB: "findIndex (has_id ''1'') [contact_A, contact_B] = Some 0"
  by (simp add: has_id_def contact_A_def)

lemma load_store_legacy:
  "loadContacts store_legacy =
     Inr [[(''id'', JStr ''1''), (''name'', JStr ''Eve''), (''notes'', JArr [])],
          [(''id'', JStr ''2''), (''name'', JStr ''Frank''), (''notes'', JArr [])]]"
  by (simp add: store_legacy_def loadContacts_def normalize_contact_def spread_def)

lemma normal_contact_A: "normal contact_A"
  by (simp add: normal_def notes_is_sequence_def contact_A_def)

lemma normal_contact_B: "normal contact_B"
  by (simp add: normal_def notes_is_sequence_def contact_B_def)

lemma load_store_mixed: "loadContacts store_mixed = Inr [contact_A, contact_custom]"
  by (simp add: store_mixed_def contact_A_def contact_custom_def loadContacts_def
      normalize_contact_def spread_def)

section \<open>The claims about the server\<close>

text \<open>
  Claim C6. For every store state and every id that no stored contact carries, the update
  handler answers 404 (not found) and leaves the data file exactly as it was: nothing is
  written, whatever the body of the request is.
\<close>

theorem updateContact_unknown_id_not_found:
  assumes "loadContacts st = Inr cs" and "\<forall>c\<in>set cs. \<not> has_id rid c"
  shows "router_put rid body st = (Reply 404 (message ''Contact not found''), st)"
proof -
  have "findIndex (has_id rid) cs = None"
    using assms(2) by (simp add: findIndex_None)
  then show ?thesis
    by (simp add: router_put_def assms(1))
qed

theorem updateContact_unknown_id_not_found_witness:
  "loadContacts store_AB = Inr [contact_A, contact_B] \<and>
   \<not> has_id ''invalid-id'' contact_A \<and> \<not> has_id ''invalid-id'' contact_B \<and>
   router_put ''invalid-id'' (JObj [(''name'', JStr ''X'')]) store_AB =
     (Reply 404 (message ''Contact not found''), store_AB)"
  using updateContact_unknown_id_not_found
    [of store_AB "[contact_A, contact_B]" "''invalid-id''" "JObj [(''name'', JStr ''X'')]"]
  by (simp add: load_store_AB has_id_def contact_A_def contact_B_def)

text \<open>
  Claim C7. The delete handler never answers 404. When the data file can be read and
  written it answers 200 whether or not a contact carries the id, and the store then holds
  exactly the contacts whose id is different, in their order; deleting the same id again
  answers 200 again and leaves that store as it is.
\<close>

theorem deleteContact_idempotent:
  "fst (router_delete rid st) \<noteq> Reply 404 (message ''Contact not found'') \<and>
   (loadContacts st = Inr cs \<and> writable st \<longrightarrow>
      fst (router_delete rid st) = Reply 200 (message ''Deleted'') \<and>
      loadContacts (snd (router_delete rid st)) = Inr (filter (\<lambda>c. \<not> has_id rid c) cs) \<and>
      fst (router_delete rid (snd (router_delete rid st))) = Reply 200 (message ''Deleted'') \<and>
      loadContacts (snd (router_delete rid (snd (router_delete rid st)))) =
        Inr (filter (\<lambda>c. \<not> has_id rid c) cs))"
proof (intro conjI impI)
  show "fst (router_delete rid st) \<noteq> Reply 404 (message ''Contact not found'')"
    by (simp add: router_delete_def split: sum.splits)
next
  assume a: "loadContacts st = Inr cs \<and> writable st"
  let ?cs' = "filter (\<lambda>c. \<not> has_id rid c) cs"
  let ?st' = "st\<lparr>dataFile := Some (JArr (map JObj ?cs'))\<rparr>"
  have first: "router_delete rid st = (Reply 200 (message ''Deleted''), ?st')"
    using a by (simp add: router_delete_ok)
  have norm: "\<forall>c\<in>set ?cs'. normal c"
    using a loadContacts_normal by auto
  have load': "loadContacts ?st' = Inr ?cs'"
    using norm by (rule load_saved)
  have w': "writable ?st'" using a by simp
  have second: "router_delete rid ?st' = (Reply 200 (message ''Deleted''), ?st')"
    using router_delete_ok [OF load' w', of rid] by simp
  show "fst (router_delete rid st) = Reply 200 (message ''Deleted'')"
    by (simp add: first)
  show "loadContacts (snd (router_delete rid st)) = Inr ?cs'"
    by (simp add: first load')
  show "fst (router_delete rid (snd (router_delete rid st))) = Reply 200 (message ''Deleted'')"
    by (simp only: first snd_conv second fst_conv)
  show "loadContacts (snd (router_delete rid (snd (router_delete rid st)))) = Inr ?cs'"
    by (simp only: first snd_conv second load')
qed

theorem deleteContact_idempotent_witness:
  "loadContacts store_AB = Inr [contact_A, contact_B] \<and> writable store_AB \<and>
   fst (router_delete ''1'' store_AB) = Reply 200 (message ''Deleted'') \<and>
   loadContacts (snd (router_delete ''1'' store_AB)) = Inr [contact_B] \<and>
   fst (router_delete ''1'' (snd (router_delete ''1'' store_AB))) = Reply 200 (message ''Deleted'') \<and>
   loadContacts (snd (router_delete ''1'' (snd (router_delete ''1'' store_AB)))) = Inr [contact_B]"
  using deleteContact_idempotent [of "''1''" store_AB "[contact_A, contact_B]"]
  by (simp add: load_store_AB has_id_def contact_A_def contact_B_def) (simp add: store_AB_def)

text \<open>
  Claim C8. Every contact that the handlers show or store has \<^verbatim>\<open>notes\<close> present as an
  array. \<open>loadContacts\<close> returns only such contacts, and gives the empty array to every
  element of the file whose \<^verbatim>\<open>notes\<close> is missing or is not an array; the contact that a
  create returns has an array, the empty one when the body's \<^verbatim>\<open>notes\<close> is missing or is
  not an array; and after a successful create, update or delete every object of the data
  file has an array as its \<^verbatim>\<open>notes\<close>.
\<close>

theorem notes_always_sequence:
  "(loadContacts st = Inr cs \<longrightarrow> (\<forall>c\<in>set cs. notes_is_sequence c)) \<and>
   (dataFile st = Some (JArr raw) \<and> loadContacts st = Inr cs \<longrightarrow>
      length cs = length raw \<and>
      (\<forall>i<length raw. \<not> (\<exists>ns. prop_of (raw ! i) ''notes'' = Some (JArr ns)) \<longrightarrow>
         get_prop (cs ! i) ''notes'' = Some (JArr []))) \<and>
   (router_get st = (Reply 200 (JArr js), st0) \<longrightarrow>
      (\<forall>j\<in>set js. \<exists>c. j = JObj c \<and> notes_is_sequence c)) \<and>
   (router_post now body st = (Reply 201 (contact_body c1), st1) \<longrightarrow>
      notes_is_sequence c1 \<and> stored_notes_ok st1 \<and>
      (\<not> (\<exists>ns. prop_of body ''notes'' = Some (JArr ns)) \<longrightarrow>
         get_prop c1 ''notes'' = Some (JArr []))) \<and>
   (router_put rid patch st = (Reply 200 (contact_body c2), st2) \<longrightarrow>
      notes_is_sequence c2 \<and> stored_notes_ok st2) \<and>
   (router_delete did st = (Reply 200 m, st3) \<longrightarrow> stored_notes_ok st3)"
proof (intro conjI impI)
  assume "loadContacts st = Inr cs"
  then show "\<forall>c\<in>set cs. notes_is_sequence c"
    using loadContacts_normal by (auto simp: normal_def)
next
  assume "dataFile st = Some (JArr raw) \<and> loadContacts st = Inr cs"
  then have "map_throwing normalize_contact raw = Inr cs"
    by (auto simp: loadContacts_def)
  from map_throwing_nth [OF this]
  have n: "length cs = length raw" "\<forall>i<length raw. normalize_contact (raw ! i) = Inr (cs ! i)"
    by simp_all
  show "length cs = length raw" by (rule n(1))
  show "\<forall>i<length raw. \<not> (\<exists>ns. prop_of (raw ! i) ''notes'' = Some (JArr ns)) \<longrightarrow>
         get_prop (cs ! i) ''notes'' = Some (JArr [])"
    using n(2) normalize_notes_default by blast
next
  assume "router_get st = (Reply 200 (JArr js), st0)"
  then obtain cs' where l: "loadContacts st = Inr cs'" and js: "js = map JObj cs'"
    by (auto simp: router_get_def message_def split: sum.splits)
  from loadContacts_normal [OF l] show "\<forall>j\<in>set js. \<exists>c. j = JObj c \<and> notes_is_sequence c"
    by (auto simp: js normal_def)
next
  assume a: "router_post now body st = (Reply 201 (contact_body c1), st1)"
  from a obtain cs' where l: "loadContacts st = Inr cs'"
    and c1: "contact_body c1 = contact_body (newContact now body)"
    and st1: "st1 = st\<lparr>dataFile := Some (JArr (map JObj (cs' @ [newContact now body])))\<rparr>"
    by (rule router_post_201) auto
  have c1': "c1 = newContact now body" using c1 by (simp add: contact_body_def)
  show "notes_is_sequence c1"
    using normal_newContact [of now body] by (simp add: c1' normal_def)
  have "\<forall>c\<in>set (cs' @ [newContact now body]). normal c"
    using loadContacts_normal [OF l] normal_newContact by auto
  then show "stored_notes_ok st1"
    unfolding st1 by (rule stored_notes_ok_saved)
  show "get_prop c1 ''notes'' = Some (JArr [])" if "\<not> (\<exists>ns. prop_of body ''notes'' = Some (JArr ns))"
    using that
    by (cases body)
       (auto simp: c1' newContact_def get_prop_set_prop split: option.splits json.splits)
next
  assume a: "router_put rid patch st = (Reply 200 (contact_body c2), st2)"
  from a obtain cs' i where l: "loadContacts st = Inr cs'"
    and i: "findIndex (has_id rid) cs' = Some i"
    and c2: "contact_body c2 = contact_body (updated (cs' ! i) patch)"
    and st2: "st2 = st\<lparr>dataFile := Some (JArr (map JObj (cs'[i := updated (cs' ! i) patch])))\<rparr>"
    by (rule router_put_200) auto
  have c2': "c2 = updated (cs' ! i) patch" using c2 by (simp add: contact_body_def)
  have "i < length cs'" using findIndex_Some [OF i] by simp
  then have "normal (cs' ! i)" using loadContacts_normal [OF l] by simp
  then have n: "normal (updated (cs' ! i) patch)" by (rule normal_updated)
  then show "notes_is_sequence c2" by (simp add: c2' normal_def)
  have "\<forall>c\<in>set (cs'[i := updated (cs' ! i) patch]). normal c"
    using loadContacts_normal [OF l] n by (rule normal_list_update)
  then show "stored_notes_ok st2"
    unfolding st2 by (rule stored_notes_ok_saved)
next
  assume a: "router_delete did st = (Reply 200 m, st3)"
  from a obtain cs' where l: "loadContacts st = Inr cs'"
    and st3: "st3 = st\<lparr>dataFile := Some (JArr (map JObj (filter (\<lambda>c. \<not> has_id did c) cs')))\<rparr>"
    by (rule router_delete_200) auto
  have "\<forall>c\<in>set (filter (\<lambda>c. \<not> has_id did c) cs'). normal c"
    using loadContacts_normal [OF l] by auto
  then show "stored_notes_ok st3"
    unfolding st3 by (rule stored_notes_ok_saved)
qed

theorem notes_always_sequence_witness:
  "loadContacts store_legacy =
     Inr [[(''id'', JStr ''1''), (''name'', JStr ''Eve''), (''notes'', JArr [])],
          [(''id'', JStr ''2''), (''name'', JStr ''Frank''), (''notes'', JArr [])]] \<and>
   router_get store_legacy =
     (Reply 200 (JArr [JObj [(''id'', JStr ''1''), (''name'', JStr ''Eve''), (''notes'', JArr [])],
                       JObj [(''id'', JStr ''2''), (''name'', JStr ''Frank''), (''notes'', JArr [])]]),
      store_legacy) \<and>
   router_post 1700000000000 (JObj [(''name'', JStr ''Grace''), (''notes'', JStr ''hello'')]) store_legacy =
     (Reply 201 (contact_body
        [(''id'', JStr ''1700000000000''), (''name'', JStr ''Grace''), (''notes'', JArr [])]),
      snd (router_post 1700000000000 (JObj [(''name'', JStr ''Grace''), (''notes'', JStr ''hello'')])
        store_legacy)) \<and>
   stored_notes_ok (snd (router_post 1700000000000
      (JObj [(''name'', JStr ''Grace''), (''notes'', JStr ''hello'')]) store_legacy)) \<and>
   router_put ''2'' (JObj [(''notes'', JNull)]) store_legacy =
     (Reply 200 (contact_body [(''id'', JStr ''2''), (''name'', JStr ''Frank''), (''notes'', JArr [])]),
      snd (router_put ''2'' (JObj [(''notes'', JNull)]) store_legacy)) \<and>
   stored_notes_ok (snd (router_put ''2'' (JObj [(''notes'', JNull)]) store_legacy)) \<and>
   router_delete ''1'' store_legacy =
     (Reply 200 (message ''Deleted''), snd (router_delete ''1'' store_legacy)) \<and>
   stored_notes_ok (snd (router_delete ''1'' store_legacy))"
proof -
  let ?eve = "[(''id'', JStr ''1''), (''name'', JStr ''Eve''), (''notes'', JArr [])]"
  let ?frank = "[(''id'', JStr ''2''), (''name'', JStr ''Frank''), (''notes'', JArr [])]"
  let ?grace = "[(''id'', JStr ''1700000000000''), (''name'', JStr ''Grace''), (''notes'', JArr [])]"
  let ?post = "router_post 1700000000000 (JObj [(''name'', JStr ''Grace''), (''notes'', JStr ''hello'')])
    store_legacy"
  let ?put = "router_put ''2'' (JObj [(''notes'', JNull)]) store_legacy"
  let ?del = "router_delete ''1'' store_legacy"
  have w: "writable store_legacy" by (simp add: store_legacy_def)
  have raw: "dataFile store_legacy =
      Some (JArr [JObj [(''id'', JStr ''1''), (''name'', JStr ''Eve'')],
                  JObj [(''id'', JStr ''2''), (''name'', JStr ''Frank''), (''notes'', JNull)]])"
    by (simp add: store_legacy_def)
  have g: "router_get store_legacy = (Reply 200 (JArr [JObj ?eve, JObj ?frank]), store_legacy)"
    by (simp add: router_get_def load_store_legacy)
  have n: "newContact 1700000000000 (JObj [(''name'', JStr ''Grace''), (''notes'', JStr ''hello'')])
      = ?grace"
    by (simp add: newContact_def spread_def toString_sample)
  have p: "?post = (Reply 201 (contact_body ?grace), snd ?post)"
    using router_post_ok [OF load_store_legacy w, of
        "JObj [(''name'', JStr ''Grace''), (''notes'', JStr ''hello'')]" 1700000000000]
    by (simp add: n)
  have i: "findIndex (has_id ''2'') [?eve, ?frank] = Some 1"
    by (simp add: has_id_def)
  have u: "updated ([?eve, ?frank] ! 1) (JObj [(''notes'', JNull)]) = ?frank"
    by (simp add: updated_def spread_def)
  have q: "?put = (Reply 200 (contact_body ?frank), snd ?put)"
    using router_put_ok [OF load_store_legacy i w, of "JObj [(''notes'', JNull)]"]
    by (simp only: u snd_conv) simp
  have d: "?del = (Reply 200 (message ''Deleted''), snd ?del)"
    using router_delete_ok [OF load_store_legacy w, of "''1''"] by simp
  note T = notes_always_sequence [where st = store_legacy and cs = "[?eve, ?frank]"
      and raw = "[JObj [(''id'', JStr ''1''), (''name'', JStr ''Eve'')],
                  JObj [(''id'', JStr ''2''), (''name'', JStr ''Frank''), (''notes'', JNull)]]"
      and js = "[JObj ?eve, JObj ?frank]" and ?st0.0 = store_legacy
      and now = 1700000000000
      and body = "JObj [(''name'', JStr ''Grace''), (''notes'', JStr ''hello'')]"
      and ?c1.0 = ?grace and ?st1.0 = "snd ?post"
      and rid = "''2''" and patch = "JObj [(''notes'', JNull)]" and ?c2.0 = ?frank and ?st2.0 = "snd ?put"
      and did = "''1''" and m = "message ''Deleted''" and ?st3.0 = "snd ?del"]
  note rest = T [THEN conjunct2, THEN conjunct2, THEN conjunct2]
  have t1: "stored_notes_ok (snd ?post)"
    using rest [THEN conjunct1, THEN mp, OF p] by (rule conjunct2 [THEN conjunct1])
  have t2: "stored_notes_ok (snd ?put)"
    using rest [THEN conjunct2, THEN conjunct1, THEN mp, OF q] by (rule conjunct2)
  have t3: "stored_notes_ok (snd ?del)"
    using rest [THEN conjunct2, THEN conjunct2, THEN mp, OF d] .
  show ?thesis
    by (intro conjI) (rule load_store_legacy g p t1 q t2 d t3)+
qed

text \<open>
  Claim C2, as stated, fails on the stored records: \<open>loadContacts\<close> gives every element its
  \<^verbatim>\<open>notes\<close> array and the update writes the whole loaded list back. On a data file whose
  first record has no \<^verbatim>\<open>notes\<close> and whose second has \<^verbatim>\<open>notes: null\<close>, the patch
  \<^verbatim>\<open>{name: "X"}\<close> for the second record also turns its stored notes into the empty array,
  and the first record is stored with an empty \<^verbatim>\<open>notes\<close> array too.
\<close>

theorem updateContact_rewrites_notes_counterexample:
  "dataFile store_legacy =
     Some (JArr [JObj [(''id'', JStr ''1''), (''name'', JStr ''Eve'')],
                 JObj [(''id'', JStr ''2''), (''name'', JStr ''Frank''), (''notes'', JNull)]]) \<and>
   fst (router_put ''2'' (JObj [(''name'', JStr ''X'')]) store_legacy) =
     Reply 200 (contact_body [(''id'', JStr ''2''), (''name'', JStr ''X''), (''notes'', JArr [])]) \<and>
   dataFile (snd (router_put ''2'' (JObj [(''name'', JStr ''X'')]) store_legacy)) =
     Some (JArr [JObj [(''id'', JStr ''1''), (''name'', JStr ''Eve''), (''notes'', JArr [])],
                 JObj [(''id'', JStr ''2''), (''name'', JStr ''X''), (''notes'', JArr [])]])"
proof -
  let ?eve = "[(''id'', JStr ''1''), (''name'', JStr ''Eve''), (''notes'', JArr [])]"
  let ?frank = "[(''id'', JStr ''2''), (''name'', JStr ''Frank''), (''notes'', JArr [])]"
  have w: "writable store_legacy" by (simp add: store_legacy_def)
  have d: "dataFile store_legacy =
     Some (JArr [JObj [(''id'', JStr ''1''), (''name'', JStr ''Eve'')],
                 JObj [(''id'', JStr ''2''), (''name'', JStr ''Frank''), (''notes'', JNull)]])"
    by (simp add: store_legacy_def)
  have i: "findIndex (has_id ''2'') [?eve, ?frank] = Some 1"
    by (simp add: has_id_def)
  have b: "JObj [(''name'', JStr ''X'')] \<noteq> JNull" by simp
  have u: "updated ([?eve, ?frank] ! 1) (JObj [(''name'', JStr ''X'')]) =
      [(''id'', JStr ''2''), (''name'', JStr ''X''), (''notes'', JArr [])]"
    by (simp add: updated_def spread_def)
  show ?thesis
    using router_put_ok [OF load_store_legacy i w b] d
    by (simp only: u) simp
qed

text \<open>
  Claim C2, amended. For a contact of the store and a patch \<^verbatim>\<open>{f: v}\<close> with one field, the
  update answers 200 with a record \<open>u\<close> and stores the list that \<open>loadContacts\<close> returned
  (every \<^verbatim>\<open>notes\<close> an array) with \<open>u\<close> in the place of the contact. Against the contact as
  loaded, every field of \<open>u\<close> other than \<open>f\<close> has the value it had, and the field \<open>f\<close> has the
  value \<open>v\<close>, unless \<open>f\<close> is \<^verbatim>\<open>notes\<close> and \<open>v\<close> is not an array, in which case the notes are
  the ones the contact had. When every stored record is an object whose \<^verbatim>\<open>notes\<close> is
  already an array, the same holds against the data file itself: the stored record changes
  in the field \<open>f\<close> only, and every other stored record stays as it was.
\<close>

theorem updateContact_single_field:
  assumes "loadContacts st = Inr cs" and "findIndex (has_id rid) cs = Some i" and "writable st"
  shows "\<exists>u. fst (router_put rid (JObj [(f, v)]) st) = Reply 200 (contact_body u) \<and>
             dataFile (snd (router_put rid (JObj [(f, v)]) st)) = Some (JArr (map JObj (cs[i := u]))) \<and>
             loadContacts (snd (router_put rid (JObj [(f, v)]) st)) = Inr (cs[i := u]) \<and>
             (\<forall>g. g \<noteq> f \<longrightarrow> get_prop u g = get_prop (cs ! i) g) \<and>
             get_prop u f =
               (if f = ''notes'' \<and> \<not> is_sequence v then get_prop (cs ! i) ''notes'' else Some v) \<and>
             (\<forall>raw. dataFile st = Some (JArr raw) \<and> (\<forall>r\<in>set raw. stored_normal r) \<longrightarrow>
                i < length raw \<and>
                dataFile (snd (router_put rid (JObj [(f, v)]) st)) = Some (JArr (raw[i := JObj u])) \<and>
                (\<forall>g. g \<noteq> f \<longrightarrow> prop_of (JObj u) g = prop_of (raw ! i) g) \<and>
                prop_of (JObj u) f =
                  (if f = ''notes'' \<and> \<not> is_sequence v then prop_of (raw ! i) ''notes''
                   else Some v))"
proof -
  let ?u = "updated (cs ! i) (JObj [(f, v)])"
  let ?r = "router_put rid (JObj [(f, v)]) st"
  have i: "i < length cs" using findIndex_Some [OF assms(2)] by simp
  then have n: "normal (cs ! i)" using loadContacts_normal [OF assms(1)] by simp
  have b: "JObj [(f, v)] \<noteq> JNull" by simp
  note res = put_result [OF assms b]
  have saved: "dataFile (snd ?r) = Some (JArr (map JObj (cs[i := ?u])))"
    by (simp add: router_put_ok [OF assms b])
  have other: "\<forall>g. g \<noteq> f \<longrightarrow> get_prop ?u g = get_prop (cs ! i) g"
    using updated_single_other [OF n] by simp
  have field: "get_prop ?u f =
      (if f = ''notes'' \<and> \<not> is_sequence v then get_prop (cs ! i) ''notes'' else Some v)"
    by (rule updated_single_field [OF n])
  have raw: "i < length raw \<and>
      dataFile (snd ?r) = Some (JArr (raw[i := JObj ?u])) \<and>
      (\<forall>g. g \<noteq> f \<longrightarrow> prop_of (JObj ?u) g = prop_of (raw ! i) g) \<and>
      prop_of (JObj ?u) f =
        (if f = ''notes'' \<and> \<not> is_sequence v then prop_of (raw ! i) ''notes'' else Some v)"
    if "dataFile st = Some (JArr raw) \<and> (\<forall>r\<in>set raw. stored_normal r)" for raw
  proof -
    from that have eq: "raw = map JObj cs"
      using stored_normal_load [OF _ _ assms(1)] by blast
    have "raw ! i = JObj (cs ! i)" using i by (simp add: eq)
    moreover have "raw[i := JObj ?u] = map JObj (cs[i := ?u])" by (simp add: eq map_update)
    ultimately show ?thesis using i saved other field by (simp add: eq)
  qed
  show ?thesis
    using res saved other field raw by (intro exI [of _ ?u]) blast
qed

theorem updateContact_single_field_witness:
  "loadContacts store_AB = Inr [contact_A, contact_B] \<and>
   findIndex (has_id ''1'') [contact_A, contact_B] = Some 0 \<and> writable store_AB \<and>
   dataFile store_AB = Some (JArr [JObj contact_A, JObj contact_B]) \<and>
   stored_normal (JObj contact_A) \<and> stored_normal (JObj contact_B) \<and>
   (\<exists>u. fst (router_put ''1'' (JObj [(''name'', JStr ''Charlie Updated'')]) store_AB) =
          Reply 200 (contact_body u) \<and>
        dataFile (snd (router_put ''1'' (JObj [(''name'', JStr ''Charlie Updated'')]) store_AB)) =
          Some (JArr [JObj u, JObj contact_B]) \<and>
        loadContacts (snd (router_put ''1'' (JObj [(''name'', JStr ''Charlie Updated'')]) store_AB)) =
          Inr [u, contact_B] \<and>
        get_prop u ''id'' = Some (JStr ''1'') \<and>
        get_prop u ''notes'' = Some (JArr []) \<and>
        get_prop u ''name'' = Some (JStr ''Charlie Updated''))"
proof -
  let ?r = "router_put ''1'' (JObj [(''name'', JStr ''Charlie Updated'')]) store_AB"
  have w: "writable store_AB" by (simp add: store_AB_def)
  have d: "dataFile store_AB = Some (JArr [JObj contact_A, JObj contact_B])"
    by (simp add: store_AB_def)
  have sa: "stored_normal (JObj contact_A)" and sb: "stored_normal (JObj contact_B)"
    by (simp_all add: stored_normal_def normal_contact_A normal_contact_B)
  from updateContact_single_field [OF load_store_AB findIndex_store_AB w,
      of "''name''" "JStr ''Charlie Updated''"]
  obtain u where u: "fst ?r = Reply 200 (contact_body u)"
      "loadContacts (snd ?r) = Inr ([contact_A, contact_B][0 := u])"
      "\<forall>g. g \<noteq> ''name'' \<longrightarrow> get_prop u g = get_prop ([contact_A, contact_B] ! 0) g"
      "get_prop u ''name'' = Some (JStr ''Charlie Updated'')"
      and raw: "\<forall>raw. dataFile store_AB = Some (JArr raw) \<and> (\<forall>r\<in>set raw. stored_normal r) \<longrightarrow>
        dataFile (snd ?r) = Some (JArr (raw[0 := JObj u]))"
    by auto
  have "dataFile (snd ?r) = Some (JArr ([JObj contact_A, JObj contact_B][0 := JObj u]))"
    using raw d sa sb by simp
  then have f: "dataFile (snd ?r) = Some (JArr [JObj u, JObj contact_B])" by simp
  have "get_prop u ''id'' = Some (JStr ''1'')" "get_prop u ''notes'' = Some (JArr [])"
    using u(3) by (simp_all add: contact_A_def)
  with u f show ?thesis
    using load_store_AB findIndex_store_AB w d sa sb by auto
qed

text \<open>
  Claim C1, as stated, fails: the patch is spread over the stored record, so an \<^verbatim>\<open>id\<close> in
  the patch replaces the stored one. Updating contact \<^verbatim>\<open>1\<close> with the patch
  \<^verbatim>\<open>{id: "999"}\<close> returns and stores a record whose id is \<^verbatim>\<open>999\<close>.
\<close>

theorem updateContact_id_counterexample:
  "loadContacts store_AB = Inr [contact_A, contact_B] \<and>
   get_prop contact_A ''id'' = Some (JStr ''1'') \<and>
   fst (router_put ''1'' (JObj [(''id'', JStr ''999'')]) store_AB) =
     Reply 200 (contact_body
       [(''id'', JStr ''999''), (''name'', JStr ''A''), (''contactPoint'', JStr ''Email''),
        (''contactDetail'', JStr ''a@example.com''), (''notes'', JArr []),
        (''dateCreated'', JStr ''2025-01-01''), (''remindDate'', JStr ''2025-09-01''),
        (''remindTime'', JStr ''10:00'')]) \<and>
   loadContacts (snd (router_put ''1'' (JObj [(''id'', JStr ''999'')]) store_AB)) =
     Inr [[(''id'', JStr ''999''), (''name'', JStr ''A''), (''contactPoint'', JStr ''Email''),
        (''contactDetail'', JStr ''a@example.com''), (''notes'', JArr []),
        (''dateCreated'', JStr ''2025-01-01''), (''remindDate'', JStr ''2025-09-01''),
        (''remindTime'', JStr ''10:00'')], contact_B]"
proof -
  have w: "writable store_AB" by (simp add: store_AB_def)
  have b: "JObj [(''id'', JStr ''999'')] \<noteq> JNull" by simp
  have i: "get_prop contact_A ''id'' = Some (JStr ''1'')" by (simp add: contact_A_def)
  have u: "updated contact_A (JObj [(''id'', JStr ''999'')]) =
     [(''id'', JStr ''999''), (''name'', JStr ''A''), (''contactPoint'', JStr ''Email''),
        (''contactDetail'', JStr ''a@example.com''), (''notes'', JArr []),
        (''dateCreated'', JStr ''2025-01-01''), (''remindDate'', JStr ''2025-09-01''),
        (''remindTime'', JStr ''10:00'')]"
    by (simp add: updated_def spread_def contact_A_def)
  show ?thesis
    using put_result [OF load_store_AB findIndex_store_AB w b] i
    by (simp add: u load_store_AB)
qed

text \<open>
  Claim C1, amended. For every stored contact and every patch (a JSON value other than
  \<^verbatim>\<open>null\<close>) that has no \<^verbatim>\<open>id\<close> field, or whose \<^verbatim>\<open>id\<close> is the id of the request, the
  record returned and stored by the update has the id of the record before the update.
\<close>

theorem updateContact_keeps_id:
  assumes "loadContacts st = Inr cs" and "findIndex (has_id rid) cs = Some i" and "writable st"
    and "body \<noteq> JNull"
    and "\<forall>v. (''id'', v) \<in> set (own_props body) \<longrightarrow> v = JStr rid"
  shows "\<exists>u. fst (router_put rid body st) = Reply 200 (contact_body u) \<and>
             loadContacts (snd (router_put rid body st)) = Inr (cs[i := u]) \<and>
             get_prop u ''id'' = get_prop (cs ! i) ''id'' \<and>
             get_prop u ''id'' = Some (JStr rid)"
proof -
  have i: "i < length cs" and h: "has_id rid (cs ! i)"
    using findIndex_Some [OF assms(2)] by simp_all
  have n: "normal (cs ! i)" using loadContacts_normal [OF assms(1)] i by simp
  have old: "get_prop (cs ! i) ''id'' = Some (JStr rid)" using h by (simp add: has_id_def)
  have "get_prop (updated (cs ! i) body) ''id'' = Some (JStr rid)"
    using n old assms(5) by (rule updated_id)
  then show ?thesis
    using put_result [OF assms(1-4)] old by (intro exI [of _ "updated (cs ! i) body"]) simp
qed

theorem updateContact_keeps_id_witness:
  "loadContacts store_AB = Inr [contact_A, contact_B] \<and>
   findIndex (has_id ''1'') [contact_A, contact_B] = Some 0 \<and> writable store_AB \<and>
   (\<exists>u. fst (router_put ''1'' (JObj [(''id'', JStr ''1''), (''name'', JStr ''Ann'')]) store_AB) =
          Reply 200 (contact_body u) \<and>
        loadContacts (snd (router_put ''1'' (JObj [(''id'', JStr ''1''), (''name'', JStr ''Ann'')]) store_AB)) =
          Inr [u, contact_B] \<and>
        get_prop u ''id'' = Some (JStr ''1''))"
proof -
  have w: "writable store_AB" by (simp add: store_AB_def)
  have b: "JObj [(''id'', JStr ''1''), (''name'', JStr ''Ann'')] \<noteq> JNull" by simp
  have p: "\<forall>v. (''id'', v) \<in> set (own_props (JObj [(''id'', JStr ''1''), (''name'', JStr ''Ann'')]))
      \<longrightarrow> v = JStr ''1''" by simp
  from updateContact_keeps_id [OF load_store_AB findIndex_store_AB w b p]
  show ?thesis using load_store_AB findIndex_store_AB w by auto
qed

text \<open>
  Claim C10. When the body of a create request is an object with an \<^verbatim>\<open>id\<close> field, the
  contact returned and stored has that id, not the one minted from the clock: the body is
  spread after the minted id.
\<close>

theorem createContact_takes_body_id:
  assumes "loadContacts st = Inr cs" and "writable st"
    and "distinct (map fst ps)" and "get_prop ps ''id'' = Some v"
  shows "\<exists>c. fst (router_post now (JObj ps) st) = Reply 201 (contact_body c) \<and>
             loadContacts (snd (router_post now (JObj ps) st)) = Inr (cs @ [c]) \<and>
             get_prop c ''id'' = Some v"
proof -
  have "get_prop (spread [(''id'', JStr (toString now))] (JObj ps)) ''id'' = Some v"
    using assms(3,4) by (simp add: spread_def get_prop_foldl_distinct)
  then have "get_prop (newContact now (JObj ps)) ''id'' = Some v"
    by (simp add: newContact_def get_prop_set_prop)
  then show ?thesis
    using post_result [OF assms(1,2), of "JObj ps" now]
    by (intro exI [of _ "newContact now (JObj ps)"]) simp
qed

theorem createContact_takes_body_id_witness:
  "loadContacts empty_store = Inr [] \<and> writable empty_store \<and>
   toString 1700000000000 = ''1700000000000'' \<and>
   (\<exists>c. fst (router_post 1700000000000 (JObj [(''id'', JStr ''custom''), (''name'', JStr ''Mallory'')])
             empty_store) = Reply 201 (contact_body c) \<and>
        loadContacts (snd (router_post 1700000000000
             (JObj [(''id'', JStr ''custom''), (''name'', JStr ''Mallory'')]) empty_store)) = Inr [c] \<and>
        get_prop c ''id'' = Some (JStr ''custom''))"
  using createContact_takes_body_id [of empty_store "[]"
      "[(''id'', JStr ''custom''), (''name'', JStr ''Mallory'')]" "JStr ''custom''" 1700000000000]
  by (simp add: empty_store_def loadContacts_def toString_sample)

text \<open>
  Claim C3, as stated, fails: the id is the clock reading in milliseconds, and nothing
  compares it with the stored ids. Two creates at the same clock reading, starting from
  the empty store, give two contacts with the same id.
\<close>

theorem createContact_id_counterexample:
  "fst (router_post 1700000000000 (JObj [(''name'', JStr ''A'')]) empty_store) =
     Reply 201 (contact_body
       [(''id'', JStr ''1700000000000''), (''name'', JStr ''A''), (''notes'', JArr [])]) \<and>
   loadContacts (snd (router_post 1700000000000 (JObj [(''name'', JStr ''A'')]) empty_store)) =
     Inr [[(''id'', JStr ''1700000000000''), (''name'', JStr ''A''), (''notes'', JArr [])]] \<and>
   fst (router_post 1700000000000 (JObj [(''name'', JStr ''B'')])
         (snd (router_post 1700000000000 (JObj [(''name'', JStr ''A'')]) empty_store))) =
     Reply 201 (contact_body
       [(''id'', JStr ''1700000000000''), (''name'', JStr ''B''), (''notes'', JArr [])])"
  by (simp add: router_post_def empty_store_def loadContacts_def saveContacts_def newContact_def
      spread_def normalize_contact_def toString_sample)

text \<open>
  Claim C3, amended. For every create input (a JSON value other than \<^verbatim>\<open>null\<close>) without an
  \<^verbatim>\<open>id\<close> field and every store, the contact returned has as id the decimal rendering of
  the clock reading, which is not empty, and which differs from every stored id that is the
  rendering of another clock reading.
\<close>

theorem createContact_mints_id:
  assumes "loadContacts st = Inr cs" and "writable st" and "body \<noteq> JNull"
    and "''id'' \<notin> fst ` set (own_props body)"
  shows "\<exists>c. fst (router_post now body st) = Reply 201 (contact_body c) \<and>
             loadContacts (snd (router_post now body st)) = Inr (cs @ [c]) \<and>
             get_prop c ''id'' = Some (JStr (toString now)) \<and> toString now \<noteq> [] \<and>
             (\<forall>c'\<in>set cs. \<forall>t. t \<noteq> now \<and> get_prop c' ''id'' = Some (JStr (toString t)) \<longrightarrow>
                get_prop c' ''id'' \<noteq> get_prop c ''id'')"
proof -
  have minted: "get_prop (newContact now body) ''id'' = Some (JStr (toString now))"
    using assms(4) by (rule newContact_id_minted)
  have "\<forall>c'\<in>set cs. \<forall>t. t \<noteq> now \<and> get_prop c' ''id'' = Some (JStr (toString t)) \<longrightarrow>
      get_prop c' ''id'' \<noteq> Some (JStr (toString now))"
    using toString_inj by fastforce
  then show ?thesis
    using post_result [OF assms(1-3), of now] minted toString_nonempty [of now]
    by (intro exI [of _ "newContact now body"]) simp
qed

theorem createContact_mints_id_witness:
  "loadContacts store_mixed = Inr [contact_A, contact_custom] \<and> writable store_mixed \<and>
   get_prop contact_A ''id'' = Some (JStr (toString 1)) \<and>
   get_prop contact_custom ''id'' = Some (JStr ''custom'') \<and>
   (\<exists>c. fst (router_post 1700000000000 (JObj [(''name'', JStr ''Eve'')]) store_mixed) =
          Reply 201 (contact_body c) \<and>
        loadContacts (snd (router_post 1700000000000 (JObj [(''name'', JStr ''Eve'')]) store_mixed)) =
          Inr [contact_A, contact_custom, c] \<and>
        get_prop c ''id'' = Some (JStr ''1700000000000'') \<and>
        get_prop contact_A ''id'' \<noteq> get_prop c ''id'')"
proof -
  let ?r = "router_post 1700000000000 (JObj [(''name'', JStr ''Eve'')]) store_mixed"
  have w: "writable store_mixed" by (simp add: store_mixed_def)
  have b: "JObj [(''name'', JStr ''Eve'')] \<noteq> JNull" by simp
  have n: "''id'' \<notin> fst ` set (own_props (JObj [(''name'', JStr ''Eve'')]))" by simp
  have a: "get_prop contact_A ''id'' = Some (JStr (toString 1))"
    by (simp add: contact_A_def toString_small)
  have k: "get_prop contact_custom ''id'' = Some (JStr ''custom'')"
    by (simp add: contact_custom_def)
  from createContact_mints_id [OF load_store_mixed w b n, of 1700000000000]
  obtain c where c: "fst ?r = Reply 201 (contact_body c)"
      "loadContacts (snd ?r) = Inr ([contact_A, contact_custom] @ [c])"
      "get_prop c ''id'' = Some (JStr (toString 1700000000000))"
      and fresh: "\<forall>c'\<in>set [contact_A, contact_custom]. \<forall>t.
         t \<noteq> 1700000000000 \<and> get_prop c' ''id'' = Some (JStr (toString t)) \<longrightarrow>
           get_prop c' ''id'' \<noteq> get_prop c ''id''"
    by blast
  have t: "(1::int) \<noteq> 1700000000000 \<and> get_prop contact_A ''id'' = Some (JStr (toString 1))"
    using a by simp
  have "contact_A \<in> set [contact_A, contact_custom]" by simp
  with fresh t have "get_prop contact_A ''id'' \<noteq> get_prop c ''id''" by blast
  with c show ?thesis
    using load_store_mixed w a k by (auto simp: toString_sample)
qed

section \<open>Properties of the reminder checker\<close>

lemma check_contact_eq:
  "check_contact parse now shown c =
     (if resolvable_id c \<and> \<not> already_fired shown c \<and> due_spec parse now c
      then Some (the (id_opt c), reminder c) else None)"
  by (auto simp: check_contact_def resolvable_id_def already_fired_def due_spec_def Let_def
      split: option.splits)




lemma forEach_contact_sub:
  "map fst (forEach_contact parse now shown cs) =
     List.map_filter id_opt
       (filter (\<lambda>c. resolvable_id c \<and> \<not> already_fired shown c \<and> due_spec parse now c) cs)"
  by (induction cs)
     (auto simp: check_contact_eq List.map_filter_simps resolvable_id_def split: option.splits)

lemma distinct_map_filter_filter:
  "distinct (List.map_filter f xs) \<Longrightarrow> distinct (List.map_filter f (filter P xs))"
proof (induction xs)
  case Nil
  show ?case by simp
next
  case (Cons x xs)
  have sub: "set (List.map_filter f (filter P xs)) \<subseteq> set (List.map_filter f xs)"
    by (auto simp: List.map_filter_def)
  show ?case
    using Cons sub by (cases "f x") (auto simp: List.map_filter_simps)
qed

lemma forEach_contact_distinct:
  "distinct (List.map_filter id_opt cs) \<Longrightarrow> distinct (map fst (forEach_contact parse now shown cs))"
  by (simp add: forEach_contact_sub distinct_map_filter_filter)

lemma forEach_contact_fresh:
  "i \<in> fst ` set (forEach_contact parse now shown cs) \<Longrightarrow> i \<notin> shown"
  by (induction cs)
     (auto simp: check_contact_eq already_fired_def resolvable_id_def split: option.splits if_splits)

lemma foldl_insert: "foldl (\<lambda>prev i. insert i prev) S xs = S \<union> set xs"
  by (induction xs arbitrary: S) auto

lemma shown_after_step:
  "shownReminders (snd (step parse e st)) = shownReminders st \<union> fst ` set (fst (step parse e st))"
  by (cases e) (simp_all add: tick_def Let_def foldl_insert)

lemma step_fresh:
  "i \<in> fst ` set (fst (step parse e st)) \<Longrightarrow> i \<notin> shownReminders st"
proof (cases e)
  case (Tick now)
  assume "i \<in> fst ` set (fst (step parse e st))"
  then have "i \<in> fst ` set (forEach_contact parse now (shownReminders st) (contacts st))"
    by (simp add: Tick tick_def Let_def)
  then show ?thesis by (rule forEach_contact_fresh)
qed simp_all

lemma length_session_log: "length (session_log parse es st) = length es"
  by (induction es arbitrary: st) simp_all

lemma session_log_fresh:
  "i \<in> fst ` set (concat (session_log parse es st)) \<Longrightarrow> i \<notin> shownReminders st"
proof (induction es arbitrary: st)
  case Nil
  then show ?case by simp
next
  case (Cons e es)
  from Cons.prems consider "i \<in> fst ` set (fst (step parse e st))"
    | "i \<in> fst ` set (concat (session_log parse es (snd (step parse e st))))"
    by auto
  then show ?case
  proof cases
    case 1
    then show ?thesis by (rule step_fresh)
  next
    case 2
    then have "i \<notin> shownReminders (snd (step parse e st))" by (rule Cons.IH)
    then show ?thesis by (simp add: shown_after_step)
  qed
qed

lemma session_log_later_disjoint:
  "m < n \<Longrightarrow> n < length es \<Longrightarrow>
   fst ` set (session_log parse es st ! m) \<inter> fst ` set (session_log parse es st ! n) = {}"
proof (induction es arbitrary: st m n)
  case Nil
  then show ?case by simp
next
  case (Cons e es)
  let ?st' = "snd (step parse e st)"
  obtain n' where n: "n = Suc n'" and n': "n' < length es"
    using Cons.prems by (cases n) auto
  show ?case
  proof (cases m)
    case 0
    have later: "set (session_log parse es ?st' ! n') \<subseteq> set (concat (session_log parse es ?st'))"
      using n' by (auto simp: length_session_log intro!: bexI [of _ "session_log parse es ?st' ! n'"])
    have "i \<notin> fst ` set (fst (step parse e st))"
      if "i \<in> fst ` set (session_log parse es ?st' ! n')" for i
    proof -
      from that later have "i \<in> fst ` set (concat (session_log parse es ?st'))" by blast
      then have "i \<notin> shownReminders ?st'" by (rule session_log_fresh)
      then show ?thesis by (simp add: shown_after_step)
    qed
    then show ?thesis by (auto simp: 0 n)
  next
    case (Suc m')
    then have "m' < n'" using Cons.prems(1) n by simp
    from Cons.IH [OF this n'] show ?thesis by (simp add: Suc n)
  qed
qed

section \<open>Properties of the display sort\<close>

lemma mset_insert_stable: "mset (insert_stable f x xs) = add_mset x (mset xs)"
  by (induction xs) auto

lemma mset_array_sort: "mset (array_sort f xs) = mset xs"
  by (induction xs) (auto simp: mset_insert_stable)

lemma set_array_sort: "set (array_sort f xs) = set xs"
  using mset_array_sort [of f xs] by (metis set_mset_mset)

lemma sortCompare_valid:
  "remindDateTime parse a = Some x \<Longrightarrow> remindDateTime parse b = Some y \<Longrightarrow>
   sortCompare (compare_remind parse) a b = x - y"
  by (simp add: sortCompare_def compare_remind_def)

lemma sorted_insert_stable:
  assumes "\<forall>c\<in>set (x # ys). remindDateTime parse c \<noteq> None"
    and "sorted (map (\<lambda>c. the (remindDateTime parse c)) ys)"
  shows "sorted (map (\<lambda>c. the (remindDateTime parse c)) (insert_stable (compare_remind parse) x ys))"
  using assms
proof (induction ys)
  case Nil
  show ?case by simp
next
  case (Cons y ys)
  obtain tx ty where tx: "remindDateTime parse x = Some tx" and ty: "remindDateTime parse y = Some ty"
    using Cons.prems(1) by auto
  have cmp: "sortCompare (compare_remind parse) x y = tx - ty"
    using tx ty by (rule sortCompare_valid)
  show ?case
  proof (cases "tx - ty \<le> 0")
    case True
    then show ?thesis using Cons.prems(2) cmp tx ty by (auto simp: cmp)
  next
    case False
    have "sorted (map (\<lambda>c. the (remindDateTime parse c)) (insert_stable (compare_remind parse) x ys))"
      using Cons.prems by (intro Cons.IH) auto
    moreover have "set (insert_stable (compare_remind parse) x ys) = insert x (set ys)"
      using mset_insert_stable [of "compare_remind parse" x ys] by (metis set_mset_add_mset_insert set_mset_mset)
    ultimately show ?thesis using False Cons.prems(2) cmp tx ty by auto
  qed
qed

lemma sorted_array_sort:
  "\<forall>c\<in>set cs. remindDateTime parse c \<noteq> None \<Longrightarrow>
   sorted (map (\<lambda>c. the (remindDateTime parse c)) (array_sort (compare_remind parse) cs))"
proof (induction cs)
  case Nil
  show ?case by simp
next
  case (Cons c cs)
  have "\<forall>d\<in>set (c # array_sort (compare_remind parse) cs). remindDateTime parse d \<noteq> None"
    using Cons.prems by (simp add: set_array_sort)
  moreover have "sorted (map (\<lambda>c. the (remindDateTime parse c)) (array_sort (compare_remind parse) cs))"
    using Cons.prems by (intro Cons.IH) simp
  ultimately show ?case by (simp add: sorted_insert_stable del: set_simps)
qed

section \<open>The sample contacts, evaluated\<close>

lemma remind_alice: "remindDateTime utc_parse contact_alice = Some 1759233600000"
  by (simp add: remindDateTime_def contact_alice_def utc_parse_def)

lemma remind_bob: "remindDateTime utc_parse contact_bob = Some 1759312800000"
  by (simp add: remindDateTime_def contact_bob_def utc_parse_def)

lemma remind_undated: "remindDateTime utc_parse contact_undated = None"
  by (simp add: remindDateTime_def contact_undated_def utc_parse_def)

lemma ids_sample:
  "id_opt contact_alice = Some ''1''" "id_opt contact_bob = Some ''2''"
  "id_opt contact_undated = Some ''3''"
  by (simp_all add: contact_alice_def contact_bob_def contact_undated_def)

lemma reminder_alice:
  "reminder contact_alice =
     Info ''Reminder: Contact Alice via Email (alice@example.com)'' ''Friend Reminder''"
  by (simp add: reminder_def contact_alice_def)

lemma reminder_bob:
  "reminder contact_bob = Info ''Reminder: Contact Bob via Phone (123)'' ''Friend Reminder''"
  by (simp add: reminder_def contact_bob_def)

lemma check_alice_due:
  "check_contact utc_parse 1759233570000 {} contact_alice = Some (''1'', reminder contact_alice)"
  by (simp add: check_contact_def ids_sample remind_alice)

lemma check_bob_early: "check_contact utc_parse 1759233570000 S contact_bob = None"
  by (simp add: check_contact_def ids_sample remind_bob)


section \<open>The claims about the client\<close>



text \<open>
  Claim C5, as stated, fails: the set of shown reminders that one run of the checker reads
  is the one captured before the run, so when the cache holds the same id twice and both
  entries are due, that one run shows two notifications for the id.
\<close>

theorem notification_twice_counterexample:
  "session_log utc_parse [Tick 1759233570000]
     \<lparr>contacts = [contact_alice, contact_alice], shownReminders = {}\<rparr> =
   [[(''1'', Info ''Reminder: Contact Alice via Email (alice@example.com)'' ''Friend Reminder''),
     (''1'', Info ''Reminder: Contact Alice via Email (alice@example.com)'' ''Friend Reminder'')]]"
  by (simp add: tick_def check_alice_due reminder_alice)

text \<open>
  Claim C5, amended. For every contact id, no two different events of a session show a
  notification for it, whatever the cache changes between them are: once a contact has
  fired, no later run of the checker fires it again, also when its reminder has been moved
  to a later time. Within one run each due entry of the cache that has not fired is
  notified once; so when every run reads a cache with pairwise distinct ids, at most one
  notification is shown for each id in the whole session.
\<close>

theorem at_most_one_notification_per_id:
  "(\<forall>m n. m < n \<and> n < length es \<longrightarrow>
      fst ` set (session_log parse es st ! m) \<inter> fst ` set (session_log parse es st ! n) = {}) \<and>
   (ticks_see_distinct_ids parse es st \<longrightarrow>
      distinct (map fst (concat (session_log parse es st))))"
proof (intro conjI allI impI)
  fix m n
  assume "m < n \<and> n < length es"
  then show "fst ` set (session_log parse es st ! m) \<inter> fst ` set (session_log parse es st ! n) = {}"
    by (simp add: session_log_later_disjoint)
next
  assume "ticks_see_distinct_ids parse es st"
  then show "distinct (map fst (concat (session_log parse es st)))"
  proof (induction es arbitrary: st)
    case Nil
    show ?case by simp
  next
    case (Cons e es)
    let ?st' = "snd (step parse e st)"
    have rest: "distinct (map fst (concat (session_log parse es ?st')))"
      using Cons.prems by (intro Cons.IH) simp
    have first: "distinct (map fst (fst (step parse e st)))"
    proof (cases e)
      case (Tick now)
      then have "distinct (List.map_filter id_opt (contacts st))" using Cons.prems by simp
      then show ?thesis by (simp add: Tick tick_def Let_def forEach_contact_distinct)
    qed simp_all
    have disjoint: "fst ` set (fst (step parse e st))
        \<inter> fst ` set (concat (session_log parse es ?st')) = {}"
    proof -
      have "i \<notin> fst ` set (fst (step parse e st))"
        if "i \<in> fst ` set (concat (session_log parse es ?st'))" for i
      proof -
        from that have "i \<notin> shownReminders ?st'" by (rule session_log_fresh)
        then show ?thesis by (simp add: shown_after_step)
      qed
      then show ?thesis by blast
    qed
    have "set (map fst (fst (step parse e st)))
        \<inter> set (map fst (concat (session_log parse es ?st'))) = {}"
      using disjoint by (simp only: set_map)
    then show ?case using rest first by (simp del: set_map set_concat)
  qed
qed

theorem at_most_one_notification_per_id_witness:
  "ticks_see_distinct_ids utc_parse
     [Tick 1759233570000, Tick 1759233575000,
      UpdateContact (contact_alice\<lparr>remindDate := ''2025-10-01'', remindTime := ''10:00''\<rparr>),
      Tick 1759312790000]
     \<lparr>contacts = [contact_alice, contact_bob], shownReminders = {}\<rparr> \<and>
   session_log utc_parse
     [Tick 1759233570000, Tick 1759233575000,
      UpdateContact (contact_alice\<lparr>remindDate := ''2025-10-01'', remindTime := ''10:00''\<rparr>),
      Tick 1759312790000]
     \<lparr>contacts = [contact_alice, contact_bob], shownReminders = {}\<rparr> =
   [[(''1'', Info ''Reminder: Contact Alice via Email (alice@example.com)'' ''Friend Reminder'')],
    [], [],
    [(''2'', Info ''Reminder: Contact Bob via Phone (123)'' ''Friend Reminder'')]] \<and>
   distinct (map fst (concat (session_log utc_parse
     [Tick 1759233570000, Tick 1759233575000,
      UpdateContact (contact_alice\<lparr>remindDate := ''2025-10-01'', remindTime := ''10:00''\<rparr>),
      Tick 1759312790000]
     \<lparr>contacts = [contact_alice, contact_bob], shownReminders = {}\<rparr>)))"
proof -
  let ?alice' = "contact_alice\<lparr>remindDate := ''2025-10-01'', remindTime := ''10:00''\<rparr>"
  let ?es = "[Tick 1759233570000, Tick 1759233575000, UpdateContact ?alice', Tick 1759312790000]"
  let ?st = "\<lparr>contacts = [contact_alice, contact_bob], shownReminders = {}\<rparr>"
  have t1: "tick utc_parse 1759233570000 ?st =
      ([(''1'', reminder contact_alice)], \<lparr>contacts = [contact_alice, contact_bob], shownReminders = {''1''}\<rparr>)"
    by (simp add: tick_def check_alice_due check_bob_early)
  have t2: "tick utc_parse 1759233575000 \<lparr>contacts = [contact_alice, contact_bob], shownReminders = {''1''}\<rparr> =
      ([], \<lparr>contacts = [contact_alice, contact_bob], shownReminders = {''1''}\<rparr>)"
    by (simp add: tick_def check_contact_def ids_sample remind_alice remind_bob)
  have u: "handleUpdateContact ?alice' [contact_alice, contact_bob] = [?alice', contact_bob]"
    by (simp add: handleUpdateContact_def ids_sample)
  have r: "remindDateTime utc_parse ?alice' = Some 1759312800000"
    by (simp add: remindDateTime_def utc_parse_def)
  have t3: "tick utc_parse 1759312790000 \<lparr>contacts = [?alice', contact_bob], shownReminders = {''1''}\<rparr> =
      ([(''2'', reminder contact_bob)], \<lparr>contacts = [?alice', contact_bob], shownReminders = {''1'', ''2''}\<rparr>)"
    by (simp add: tick_def check_contact_def ids_sample remind_bob r) auto
  have s: "session_log utc_parse ?es ?st =
      [[(''1'', reminder contact_alice)], [], [], [(''2'', reminder contact_bob)]]"
    by (simp add: t1 t2 u t3)
  have d: "ticks_see_distinct_ids utc_parse ?es ?st"
    by (simp add: t1 t2 u t3 List.map_filter_simps ids_sample)
  from at_most_one_notification_per_id [of ?es utc_parse ?st] s d
  show ?thesis by (simp add: reminder_alice reminder_bob)
qed

text \<open>
  Claim C9, as stated, fails: a cached contact whose reminder date is invalid makes the
  comparator return \<^verbatim>\<open>NaN\<close>, read as equal, for every pair it takes part in. Bob (reminder
  on 1 October) is displayed before Alice (30 September) when a contact without a valid
  date stands between them in the cache: each of the two is compared with that contact
  only, never with the other, and the cache order stays.
\<close>

theorem display_order_counterexample:
  "remindDateTime utc_parse contact_alice = Some 1759233600000 \<and>
   remindDateTime utc_parse contact_bob = Some 1759312800000 \<and>
   display_order utc_parse [contact_bob, contact_undated, contact_alice] =
     [contact_bob, contact_undated, contact_alice]"
  by (simp add: display_order_def sortCompare_def compare_remind_def remind_alice remind_bob
      remind_undated)

text \<open>
  Claim C9, amended. When the reminder date and time of every cached contact parse to a
  valid instant, the display lists every cached contact once, and for every pair of
  displayed contacts with reminder instants \<open>T1 < T2\<close> the one with \<open>T1\<close> comes first,
  whatever the order of the cache is.
\<close>

theorem display_sorted_by_reminder:
  assumes "\<forall>c\<in>set cs. remindDateTime parse c \<noteq> None"
  shows "mset (display_order parse cs) = mset cs \<and>
    (\<forall>i j t1 t2. i < length cs \<and> j < length cs \<and>
        remindDateTime parse (display_order parse cs ! i) = Some t1 \<and>
        remindDateTime parse (display_order parse cs ! j) = Some t2 \<and> t1 < t2 \<longrightarrow> i < j)"
proof (intro conjI allI impI)
  show "mset (display_order parse cs) = mset cs"
    by (simp add: display_order_def mset_array_sort)
next
  fix i j t1 t2
  assume a: "i < length cs \<and> j < length cs \<and>
        remindDateTime parse (display_order parse cs ! i) = Some t1 \<and>
        remindDateTime parse (display_order parse cs ! j) = Some t2 \<and> t1 < t2"
  let ?d = "display_order parse cs"
  let ?k = "map (\<lambda>c. the (remindDateTime parse c)) ?d"
  have len: "length ?d = length cs"
    using mset_array_sort [of "compare_remind parse" cs] by (metis display_order_def size_mset)
  have s: "sorted ?k"
    using assms by (simp add: display_order_def sorted_array_sort)
  show "i < j"
  proof (rule ccontr)
    assume "\<not> i < j"
    then have "j \<le> i" by simp
    then have "?k ! j \<le> ?k ! i"
      using s a len by (intro sorted_nth_mono) simp_all
    then have "t2 \<le> t1" using a len by simp
    then show False using a by simp
  qed
qed

theorem display_sorted_by_reminder_witness:
  "remindDateTime utc_parse contact_alice = Some 1759233600000 \<and>
   remindDateTime utc_parse contact_bob = Some 1759312800000 \<and>
   display_order utc_parse [contact_bob, contact_alice] = [contact_alice, contact_bob] \<and>
   mset (display_order utc_parse [contact_bob, contact_alice]) = mset [contact_bob, contact_alice]"
proof -
  have v: "\<forall>c\<in>set [contact_bob, contact_alice]. remindDateTime utc_parse c \<noteq> None"
    by (simp add: remind_alice remind_bob)
  have e: "display_order utc_parse [contact_bob, contact_alice] = [contact_alice, contact_bob]"
    by (simp add: display_order_def sortCompare_def compare_remind_def remind_alice remind_bob)
  from display_sorted_by_reminder [OF v] show ?thesis
    using e remind_alice remind_bob by simp
qed

end
